theory Spec2Isabelle
  imports Complex_Main
begin

section \<open>im.darts: the darts score manager (App.tsx)\<close>

text \<open>
  A shallow embedding of the state and the handlers of the component
  \<open>DartsManagerApp\<close>.

  The scores, the deltas and the starting score are JavaScript numbers, that
  is binary64 values: the type \<open>number\<close> below, with \<open>jsAdd\<close> and \<open>jsSub\<close> rounding
  to the nearest binary64 value as \<open>+\<close> and \<open>-\<close> do. The pointer coordinates, radii
  and angles are finite binary64 values, modelled as reals; the handlers that
  compute with them take the arithmetic of the engine as a parameter (the
  record \<open>engine\<close>): the rounding applied to the exact result of \<open>+\<close>, \<open>-\<close>, \<open>*\<close>
  and \<open>/\<close>, and the library functions \<open>Math.hypot\<close>, \<open>Math.atan2\<close>, \<open>Math.cos\<close>,
  \<open>Math.sin\<close> and the constant \<open>Math.PI\<close>, which ECMAScript leaves to the
  implementation. \<open>binary64Engine\<close> is binary64 arithmetic, \<open>exactEngine\<close> is
  arithmetic without rounding. Indices, counters, sector numbers and
  multipliers are small integers in every use of the program and are modelled
  as \<open>int\<close>.

  Each \<open>useState\<close> cell is a field of the record \<open>state\<close>; a handler is a function
  from the state before the user action to the state after it. An exception
  thrown by a state updater is the value \<open>Inl TypeError\<close>.
\<close>

subsection \<open>JavaScript primitives\<close>

datatype error = TypeError | NotANumber

text \<open>\<open>String(n)\<close> and \<open>`${n}`\<close> for an integer \<open>n\<close>: its decimal digits.\<close>

definition digit_char :: "nat \<Rightarrow> char" where
  "digit_char d = char_of (48 + d)"

fun string_of_nat :: "nat \<Rightarrow> string" where
  "string_of_nat n =
     (if n < 10 then [digit_char n] else string_of_nat (n div 10) @ [digit_char (n mod 10)])"

definition String :: "int \<Rightarrow> string" where
  "String i = (if i < 0 then CHR ''-'' # string_of_nat (nat (- i)) else string_of_nat (nat i))"

text \<open>
  The decimal digits are what JavaScript prints for an integer of magnitude
  below \<open>10^21\<close>, which covers every id, label and multiplier of the program;
  beyond it JavaScript switches to the exponent notation.
\<close>

subsection \<open>Binary64 numbers\<close>

text \<open>
  Rounding to nearest, ties to even: \<open>round_half_even\<close> on the integers, and
  \<open>fl64\<close> on the binary64 grid, whose spacing at \<open>x\<close> is \<open>2\<close> to the power
  \<open>binary64_exponent x - 52\<close> (53 significant bits, least exponent \<open>-1022\<close>).
\<close>

definition round_half_even :: "real \<Rightarrow> int" where
  "round_half_even r =
     (let f = \<lfloor>r\<rfloor> in
      if r - of_int f < 1 / 2 then f
      else if 1 / 2 < r - of_int f then f + 1
      else if even f then f else f + 1)"

definition binary64_exponent :: "real \<Rightarrow> int" where
  "binary64_exponent x = max \<lfloor>log 2 \<bar>x\<bar>\<rfloor> (- 1022)"

definition fl64 :: "real \<Rightarrow> real" where
  "fl64 x =
     (if x = 0 then 0
      else of_int (round_half_even (x / 2 powi (binary64_exponent x - 52)))
             * 2 powi (binary64_exponent x - 52))"

text \<open>
  A JavaScript number: a finite value, an infinity or \<open>NaN\<close> (the two zeros are
  not told apart). \<open>roundNum\<close> is the number that an operation with the exact
  result \<open>x\<close> returns: \<open>fl64 x\<close>, or an infinity when that is beyond the largest
  binary64 value.
\<close>

datatype number = Num real | PosInf | NegInf | NaN

definition roundNum :: "real \<Rightarrow> number" where
  "roundNum x =
     (if 2 ^ 1024 \<le> fl64 x then PosInf
      else if fl64 x \<le> - (2 ^ 1024) then NegInf
      else Num (fl64 x))"

fun jsNeg :: "number \<Rightarrow> number" where
  "jsNeg (Num x) = Num (- x)"
| "jsNeg PosInf = NegInf"
| "jsNeg NegInf = PosInf"
| "jsNeg NaN = NaN"

fun jsAdd :: "number \<Rightarrow> number \<Rightarrow> number" where
  "jsAdd (Num a) (Num b) = roundNum (a + b)"
| "jsAdd NaN b = NaN"
| "jsAdd a NaN = NaN"
| "jsAdd PosInf NegInf = NaN"
| "jsAdd NegInf PosInf = NaN"
| "jsAdd PosInf b = PosInf"
| "jsAdd NegInf b = NegInf"
| "jsAdd (Num a) PosInf = PosInf"
| "jsAdd (Num a) NegInf = NegInf"

definition jsSub :: "number \<Rightarrow> number \<Rightarrow> number" where
  "jsSub a b = jsAdd a (jsNeg b)"

subsection \<open>Arithmetic on coordinates\<close>

text \<open>\<open>a % b\<close> on integers: the remainder has the sign of the dividend.\<close>

definition js_rem :: "int \<Rightarrow> int \<Rightarrow> int" where
  "js_rem a b = sgn a * (\<bar>a\<bar> mod \<bar>b\<bar>)"

text \<open>
  \<open>a % b\<close> on reals: \<open>a - b * trunc (a / b)\<close>, truncation towards zero. The
  remainder of two binary64 values is a binary64 value, so \<open>%\<close> does not round.
\<close>

definition js_trunc :: "real \<Rightarrow> int" where
  "js_trunc r = (if 0 \<le> r then \<lfloor>r\<rfloor> else \<lceil>r\<rceil>)"

definition js_fmod :: "real \<Rightarrow> real \<Rightarrow> real" where
  "js_fmod a b = a - b * of_int (js_trunc (a / b))"

text \<open>
  \<open>Math.round\<close>: the nearest integer, a tie going to the larger one; it does
  not round in binary64 either.
\<close>

definition Math_round :: "real \<Rightarrow> int" where
  "Math_round r = \<lfloor>r + 1 / 2\<rfloor>"

text \<open>
  The mathematical functions that \<open>Math.hypot\<close> and \<open>Math.atan2(y, x)\<close>
  approximate: the distance from the origin, and the angle of the point
  \<open>(x, y)\<close>, in \<open>(-pi, pi]\<close> and \<open>0\<close> at the origin.
\<close>

definition Math_hypot :: "real \<Rightarrow> real \<Rightarrow> real" where
  "Math_hypot x y = sqrt (x\<^sup>2 + y\<^sup>2)"

definition Math_atan2 :: "real \<Rightarrow> real \<Rightarrow> real" where
  "Math_atan2 y x =
     (if 0 < x then arctan (y / x)
      else if x < 0 then (if 0 \<le> y then arctan (y / x) + pi else arctan (y / x) - pi)
      else if 0 < y then pi / 2
      else if y < 0 then - (pi / 2)
      else 0)"

text \<open>
  \<open>v.toFixed(2)\<close>, as a value: the nearest multiple of \<open>1/100\<close>, a tie going
  away from zero.
\<close>

definition toFixed2 :: "real \<Rightarrow> real" where
  "toFixed2 v = sgn v * of_int \<lfloor>\<bar>v\<bar> * 100 + 1 / 2\<rfloor> / 100"

text \<open>
  The arithmetic of the engine. The four operations return the rounding
  \<open>e_rnd\<close> of the exact result, as IEEE 754 prescribes; the library functions
  are the engine's own.
\<close>

record engine =
  e_rnd :: "real \<Rightarrow> real"
  e_PI :: real
  e_hypot :: "real \<Rightarrow> real \<Rightarrow> real"
  e_atan2 :: "real \<Rightarrow> real \<Rightarrow> real"
  e_cos :: "real \<Rightarrow> real"
  e_sin :: "real \<Rightarrow> real"

definition fadd :: "engine \<Rightarrow> real \<Rightarrow> real \<Rightarrow> real" where
  "fadd E a b = e_rnd E (a + b)"

definition fsub :: "engine \<Rightarrow> real \<Rightarrow> real \<Rightarrow> real" where
  "fsub E a b = e_rnd E (a - b)"

definition fmul :: "engine \<Rightarrow> real \<Rightarrow> real \<Rightarrow> real" where
  "fmul E a b = e_rnd E (a * b)"

definition fdiv :: "engine \<Rightarrow> real \<Rightarrow> real \<Rightarrow> real" where
  "fdiv E a b = e_rnd E (a / b)"

text \<open>
  The one division of the program whose divisor can be zero, and the
  operations on its result: a quotient by zero is \<open>NaN\<close> for the dividend zero
  and an infinity otherwise (the divisor is half a width, so the zero is the
  positive one), and an infinity times zero is \<open>NaN\<close>.
\<close>

definition ndiv :: "engine \<Rightarrow> real \<Rightarrow> real \<Rightarrow> number" where
  "ndiv E a b =
     (if b = 0 then (if a = 0 then NaN else if 0 < a then PosInf else NegInf)
      else Num (fdiv E a b))"

fun nmul :: "engine \<Rightarrow> number \<Rightarrow> real \<Rightarrow> number" where
  "nmul E (Num a) c = Num (fmul E a c)"
| "nmul E PosInf c = (if c = 0 then NaN else if 0 < c then PosInf else NegInf)"
| "nmul E NegInf c = (if c = 0 then NaN else if 0 < c then NegInf else PosInf)"
| "nmul E NaN c = NaN"

fun nadd :: "engine \<Rightarrow> real \<Rightarrow> number \<Rightarrow> number" where
  "nadd E c (Num a) = Num (fadd E c a)"
| "nadd E c PosInf = PosInf"
| "nadd E c NegInf = NegInf"
| "nadd E c NaN = NaN"

fun nsub :: "engine \<Rightarrow> real \<Rightarrow> number \<Rightarrow> number" where
  "nsub E c (Num a) = Num (fsub E c a)"
| "nsub E c PosInf = NegInf"
| "nsub E c NegInf = PosInf"
| "nsub E c NaN = NaN"

text \<open>Arithmetic without rounding, with the mathematical functions.\<close>

definition exactEngine :: engine where
  "exactEngine =
     \<lparr>e_rnd = (\<lambda>x. x), e_PI = pi, e_hypot = Math_hypot, e_atan2 = Math_atan2,
      e_cos = cos, e_sin = sin\<rparr>"

text \<open>
  Binary64 arithmetic; \<open>Math.PI\<close> is the binary64 value next to \<open>pi\<close>. The library
  functions are taken correctly rounded here. An engine's library may differ
  from that in the last digit, so the theorems below rest on \<open>engineOK\<close> only.
\<close>

definition binary64Engine :: engine where
  "binary64Engine =
     \<lparr>e_rnd = fl64, e_PI = 884279719003555 / 281474976710656,
      e_hypot = (\<lambda>x y. fl64 (Math_hypot x y)), e_atan2 = (\<lambda>y x. fl64 (Math_atan2 y x)),
      e_cos = (\<lambda>x. fl64 (cos x)), e_sin = (\<lambda>x. fl64 (sin x))\<rparr>"

text \<open>
  What the theorems on the board geometry use of an engine: for values of
  magnitude up to 1024 an operation is off its exact result by at most \<open>1/8\<close>,
  the halves of the integers up to 40 are not rounded, rounding keeps the
  order of the non-negative numbers, \<open>Math.PI\<close> lies between 2 and 4, and
  \<open>Math.atan2\<close> returns an angle of magnitude at most \<open>Math.PI + 1\<close>.
  Arithmetic without rounding and binary64 arithmetic both are of this kind
  (lemmas \<open>engineOK_exactEngine\<close> and \<open>engineOK_binary64\<close>).
\<close>

definition engineOK :: "engine \<Rightarrow> bool" where
  "engineOK E =
     ((\<forall>x. \<bar>x\<bar> \<le> 1024 \<longrightarrow> \<bar>e_rnd E x - x\<bar> \<le> 1 / 8) \<and>
      (\<forall>k::int. 0 \<le> k \<and> k \<le> 40 \<longrightarrow> e_rnd E (of_int k / 2) = of_int k / 2) \<and>
      (\<forall>a b. 0 \<le> a \<and> a \<le> b \<longrightarrow> e_rnd E a \<le> e_rnd E b) \<and>
      2 \<le> e_PI E \<and> e_PI E \<le> 4 \<and>
      (\<forall>y x. \<bar>e_atan2 E y x\<bar> \<le> e_PI E + 1))"

subsection \<open>Data model\<close>

record scoreEvent =
  desc :: string
  delta :: number

record player =
  player_id :: string
  name :: string
  score :: number
  history :: "scoreEvent list"   \<comment> \<open>most recent first\<close>

record lastHit =
  svgX :: number
  svgY :: number
  distSvg :: number
  atanDeg :: real
  angleFromTop :: real
  sectorIndex :: int
  sectorNumber :: "int option"   \<comment> \<open>\<open>number | null\<close>\<close>
  mult :: int
  rawScore :: int

text \<open>A value of type \<open>string | number\<close>.\<close>

datatype label = LStr string | LNum int

text \<open>The manual selection, of type \<open>number | 'BULL' | 'OB'\<close>.\<close>

datatype manualSel = BULL | OB | Sector int

record state =
  startingScore :: number
  players :: "player list"
  activePlayerIndex :: int
  isRunning :: bool
  nextId :: int
  showAddPlayer :: bool
  newPlayerName :: string
  showDebug :: bool
  lastHit :: "lastHit option"
  manualSector :: manualSel
  manualMult :: int

definition initialState :: state where
  "initialState =
     \<lparr>startingScore = Num 501, players = [], activePlayerIndex = 0, isRunning = False,
      nextId = 1, showAddPlayer = False, newPlayerName = [], showDebug = False,
      lastHit = None, manualSector = BULL, manualMult = 1\<rparr>"

subsection \<open>String constants\<close>

text \<open>
  The Cyrillic literals of the source, as their UTF-8 bytes: the default player
  name prefix, the two bull labels and the multiplication sign.
\<close>

definition playerPrefix :: string where
  "playerPrefix =
     [CHR 0xD0, CHR 0x98, CHR 0xD0, CHR 0xB3, CHR 0xD1, CHR 0x80, CHR 0xD0, CHR 0xBE,
      CHR 0xD0, CHR 0xBA] @ '': ''"

definition innerBullLabel :: string where
  "innerBullLabel =
     [CHR 0xD0, CHR 0xAF, CHR 0xD0, CHR 0xB1, CHR 0xD0, CHR 0xBB, CHR 0xD0, CHR 0xBE,
      CHR 0xD1, CHR 0x87, CHR 0xD0, CHR 0xBA, CHR 0xD0, CHR 0xBE] @ '' (50)''"

definition outerBullLabel :: string where
  "outerBullLabel =
     [CHR 0xD0, CHR 0x92, CHR 0xD0, CHR 0xBD, CHR 0xD0, CHR 0xB5, CHR 0xD1, CHR 0x88,
      CHR 0xD0, CHR 0xBD, CHR 0xD0, CHR 0xB8, CHR 0xD0, CHR 0xB9, CHR 0x20,
      CHR 0xD1, CHR 0x86, CHR 0xD0, CHR 0xB5, CHR 0xD0, CHR 0xBD, CHR 0xD1, CHR 0x82,
      CHR 0xD1, CHR 0x80] @ '' (25)''"

definition timesSign :: string where
  "timesSign = [CHR 0xC3, CHR 0x97]"

subsection \<open>Player and turn handlers\<close>

text \<open>
  \<open>addPlayer(name)\<close>: the new player gets \<open>String(nextId)\<close> as id, the given name
  (or the default one when the name is empty), the current starting score and
  an empty history.
\<close>

definition addPlayer :: "string \<Rightarrow> state \<Rightarrow> state" where
  "addPlayer nm s =
     (let p = \<lparr>player_id = String (nextId s),
               name = (if nm \<noteq> [] then nm else playerPrefix @ String (nextId s)),
               score = startingScore s, history = []\<rparr>
      in s\<lparr>nextId := nextId s + 1, players := players s @ [p], showAddPlayer := False\<rparr>)"

definition resetGame :: "state \<Rightarrow> state" where
  "resetGame s =
     s\<lparr>players := map (\<lambda>pl. pl\<lparr>score := startingScore s, history := []\<rparr>) (players s),
       activePlayerIndex := 0, isRunning := False, lastHit := None\<rparr>"

definition removePlayer :: "string \<Rightarrow> state \<Rightarrow> state" where
  "removePlayer i s =
     s\<lparr>players := filter (\<lambda>p. player_id p \<noteq> i) (players s), activePlayerIndex := 0\<rparr>"

text \<open>
  \<open>recordHit\<close>. For an index outside the list \<open>copy[playerIndex]\<close> is
  \<open>undefined\<close>, \<open>pl\<close> is the empty object and spreading \<open>pl.history\<close> throws a
  TypeError. The raw score is a number; the label and the multiplier are only
  printed.
\<close>

definition recordHit :: "int \<Rightarrow> label \<Rightarrow> int \<Rightarrow> number \<Rightarrow> state \<Rightarrow> error + state" where
  "recordHit playerIndex lbl multiplier raw s =
     (let prev = players s in
      if 0 \<le> playerIndex \<and> playerIndex < int (length prev) then
        (let pl = prev ! nat playerIndex;
             d = (case lbl of LNum n \<Rightarrow> String multiplier @ timesSign @ String n
                            | LStr t \<Rightarrow> t);
             dl = jsNeg raw;
             pl' = pl\<lparr>score := jsAdd (score pl) dl,
                      history := \<lparr>desc = d, delta = dl\<rparr> # history pl\<rparr>
         in Inr (s\<lparr>players := prev[nat playerIndex := pl']\<rparr>))
      else Inl TypeError)"

text \<open>
  \<open>undoLast\<close>. For an index outside the list \<open>pl.history\<close> is \<open>undefined\<close> and
  reading \<open>pl.history[0]\<close> throws a TypeError; with an empty history \<open>last\<close> is
  \<open>undefined\<close> and the previous list is returned.
\<close>

definition undoLast :: "int \<Rightarrow> state \<Rightarrow> error + state" where
  "undoLast playerIndex s =
     (let prev = players s in
      if 0 \<le> playerIndex \<and> playerIndex < int (length prev) then
        (let pl = prev ! nat playerIndex in
         case history pl of
           [] \<Rightarrow> Inr s
         | last_ev # rest \<Rightarrow>
             Inr (s\<lparr>players :=
                      prev[nat playerIndex := pl\<lparr>score := jsSub (score pl) (delta last_ev),
                                                  history := rest\<rparr>]\<rparr>))
      else Inl TypeError)"

definition nextTurn :: "state \<Rightarrow> state" where
  "nextTurn s =
     s\<lparr>activePlayerIndex :=
         (if length (players s) = 0 then 0
          else js_rem (activePlayerIndex s + 1) (int (length (players s))))\<rparr>"

text \<open>The plain setters used by the controls.\<close>

definition setStartingScore :: "number \<Rightarrow> state \<Rightarrow> state" where
  "setStartingScore n s = s\<lparr>startingScore := n\<rparr>"

definition setActivePlayerIndex :: "int \<Rightarrow> state \<Rightarrow> state" where
  "setActivePlayerIndex i s = s\<lparr>activePlayerIndex := i\<rparr>"

definition toggleRunning :: "state \<Rightarrow> state" where
  "toggleRunning s = s\<lparr>isRunning := \<not> isRunning s\<rparr>"

definition setLastHit :: "lastHit option \<Rightarrow> state \<Rightarrow> state" where
  "setLastHit h s = s\<lparr>lastHit := h\<rparr>"

definition setManualSector :: "manualSel \<Rightarrow> state \<Rightarrow> state" where
  "setManualSector v s = s\<lparr>manualSector := v\<rparr>"

definition setManualMult :: "int \<Rightarrow> state \<Rightarrow> state" where
  "setManualMult v s = s\<lparr>manualMult := v\<rparr>"

definition setShowAddPlayer :: "bool \<Rightarrow> state \<Rightarrow> state" where
  "setShowAddPlayer v s = s\<lparr>showAddPlayer := v\<rparr>"

definition setNewPlayerName :: "string \<Rightarrow> state \<Rightarrow> state" where
  "setNewPlayerName v s = s\<lparr>newPlayerName := v\<rparr>"

definition setShowDebug :: "bool \<Rightarrow> state \<Rightarrow> state" where
  "setShowDebug v s = s\<lparr>showDebug := v\<rparr>"

subsection \<open>Board geometry\<close>

text \<open>Clockwise order starting at top (20).\<close>

definition SECTORS :: "int list" where
  "SECTORS = [20, 1, 18, 4, 13, 6, 10, 15, 2, 17, 3, 19, 7, 16, 8, 11, 14, 9, 12, 5]"

text \<open>\<open>SECTORS[k]\<close>: \<open>undefined\<close> (here \<open>None\<close>) outside the array.\<close>

definition SECTORS_at :: "int \<Rightarrow> int option" where
  "SECTORS_at k = (if 0 \<le> k \<and> k < int (length SECTORS) then Some (SECTORS ! nat k) else None)"

definition SVG_RADIUS :: real where "SVG_RADIUS = 50"
definition BOARD_OUTER :: real where "BOARD_OUTER = 48"
definition DOUBLE_OUTER :: real where "DOUBLE_OUTER = 44"
definition DOUBLE_INNER :: real where "DOUBLE_INNER = 38"
definition TRIPLE_OUTER :: real where "TRIPLE_OUTER = 28"
definition TRIPLE_INNER :: real where "TRIPLE_INNER = 23"
definition OUTER_BULL_R :: real where "OUTER_BULL_R = 10"
definition INNER_BULL_R :: real where "INNER_BULL_R = 5"

subsection \<open>Hit handling\<close>

text \<open>
  \<open>makeLastHit\<close>. The three optional parameters are \<open>None\<close> when the caller
  leaves them out. The parameter \<open>sectorNumber\<close> has type \<open>number | string\<close>; the
  field of the result is the number itself, and \<open>null\<close> for a string.
\<close>

definition makeLastHit ::
  "engine \<Rightarrow> number \<Rightarrow> real \<Rightarrow> real \<Rightarrow> label \<Rightarrow> int \<Rightarrow> int \<Rightarrow> real option \<Rightarrow> real option
     \<Rightarrow> int option \<Rightarrow> lastHit" where
  "makeLastHit E dSvg x y sector m raw atanDeg_opt angleFromTop_opt sectorIndex_opt =
     (let atanDegVal = (case atanDeg_opt of Some a \<Rightarrow> a
                          | None \<Rightarrow> fdiv E (fmul E (e_atan2 E y x) 180) (e_PI E));
          angleFromTopVal = (case angleFromTop_opt of Some a \<Rightarrow> a
                          | None \<Rightarrow> js_fmod (fadd E (fadd E atanDegVal 90) 360) 360);
          thetaRad = fdiv E (fmul E (fsub E 90 angleFromTopVal) (e_PI E)) 180
      in \<lparr>svgX = nadd E 50 (nmul E dSvg (e_cos E thetaRad)),
          svgY = nsub E 50 (nmul E dSvg (e_sin E thetaRad)),
          distSvg = dSvg,
          atanDeg = e_rnd E (toFixed2 atanDegVal),
          angleFromTop = e_rnd E (toFixed2 angleFromTopVal),
          sectorIndex = (case sectorIndex_opt of Some k \<Rightarrow> k
                          | None \<Rightarrow> js_rem (Math_round (fdiv E angleFromTopVal 18)) 20),
          sectorNumber = (case sector of LNum n \<Rightarrow> Some n | LStr t \<Rightarrow> None),
          mult = m,
          rawScore = raw\<rparr>)"

text \<open>
  Sequencing of two state updates of one handler: when the first throws, the
  handler's update is lost as a whole.
\<close>

definition andThen :: "error + state \<Rightarrow> (state \<Rightarrow> error + state) \<Rightarrow> error + state" where
  "andThen r f = (case r of Inl e \<Rightarrow> Inl e | Inr s \<Rightarrow> f s)"

text \<open>
  The pointer event and the bounding rectangle of the board element
  (\<open>boardRef.current\<close>, \<open>None\<close> when the reference is \<open>null\<close>).
\<close>

record mouseEvent =
  clientX :: real
  clientY :: real

record domRect =
  rect_left :: real
  rect_top :: real
  rect_width :: real
  rect_height :: real

text \<open>
  \<open>onBoardClick\<close>. Every operation of the source is the operation of the
  engine: \<open>rect.left + rect.width/2\<close> is \<open>fadd E (rect_left rect) (fdiv E
  (rect_width rect) 2)\<close>, and so on. The raw score of a sector hit is the product
  of a sector number, at most 20, and a multiplier, at most 3, which no
  arithmetic rounds.

  The sector index is inside \<open>SECTORS\<close> for every engine of the kind \<open>engineOK\<close>
  (lemma \<open>sectorIndex_range\<close> below); were it outside, \<open>sectorNumber\<close> would be
  \<open>undefined\<close> and the recorded score \<open>NaN\<close>: that branch is \<open>Inl NotANumber\<close>.
  The coordinates of a pointer and of a rectangle are finite and far below the
  largest binary64 value, so no operation on them overflows; for a rectangle
  of width \<open>0\<close> the quotient \<open>distPx / Rpx\<close> is an infinity or \<open>NaN\<close>, which
  reaches the display fields \<open>distSvg\<close>, \<open>svgX\<close> and \<open>svgY\<close>.
\<close>

definition onBoardClick ::
  "engine \<Rightarrow> mouseEvent \<Rightarrow> domRect option \<Rightarrow> state \<Rightarrow> error + state" where
  "onBoardClick E e el s =
     (if length (players s) = 0 then Inr s
      else case el of
        None \<Rightarrow> Inr s
      | Some rect \<Rightarrow>
         (let cx = fadd E (rect_left rect) (fdiv E (rect_width rect) 2);
              cy = fadd E (rect_top rect) (fdiv E (rect_height rect) 2);
              x = fsub E (clientX e) cx;
              y = fsub E (clientY e) cy;
              distPx = e_hypot E x y;
              Rpx = fdiv E (rect_width rect) 2;
              innerBullR_px = fmul E Rpx (fdiv E INNER_BULL_R SVG_RADIUS);
              outerBullR_px = fmul E Rpx (fdiv E OUTER_BULL_R SVG_RADIUS);
              tripleOuter_px = fmul E Rpx (fdiv E TRIPLE_OUTER SVG_RADIUS);
              tripleInner_px = fmul E Rpx (fdiv E TRIPLE_INNER SVG_RADIUS);
              doubleOuter_px = fmul E Rpx (fdiv E DOUBLE_OUTER SVG_RADIUS);
              doubleInner_px = fmul E Rpx (fdiv E DOUBLE_INNER SVG_RADIUS)
          in
          if distPx \<le> innerBullR_px then
            (let dSvg = nmul E (ndiv E distPx Rpx) SVG_RADIUS in
             andThen (recordHit (activePlayerIndex s) (LStr innerBullLabel) 1 (Num 50) s)
               (\<lambda>s'. Inr (setLastHit
                      (Some (makeLastHit E dSvg x y (LNum 50) 1 50 None None None)) s')))
          else if distPx \<le> outerBullR_px then
            (let dSvg = nmul E (ndiv E distPx Rpx) SVG_RADIUS in
             andThen (recordHit (activePlayerIndex s) (LStr outerBullLabel) 1 (Num 25) s)
               (\<lambda>s'. Inr (setLastHit
                      (Some (makeLastHit E dSvg x y (LNum 25) 1 25 None None None)) s')))
          else
            (let atanDeg_v = fdiv E (fmul E (e_atan2 E y x) 180) (e_PI E);
                 angleFromTop_v = js_fmod (fadd E (fadd E atanDeg_v 90) 360) 360;
                 sectorFloat = fdiv E angleFromTop_v 18;
                 sectorIndex_v = js_rem (Math_round sectorFloat) 20
             in case SECTORS_at sectorIndex_v of
                  None \<Rightarrow> Inl NotANumber
                | Some sectorNumber_v \<Rightarrow>
                   (let mult_v = (if distPx \<ge> tripleInner_px \<and> distPx \<le> tripleOuter_px then 3
                                  else if distPx \<ge> doubleInner_px \<and> distPx \<le> doubleOuter_px then 2
                                  else 1);
                        rawScore_v = sectorNumber_v * mult_v;
                        dSvg = nmul E (ndiv E distPx Rpx) SVG_RADIUS
                    in andThen (recordHit (activePlayerIndex s) (LNum sectorNumber_v) mult_v
                                  (Num (of_int rawScore_v)) s)
                         (\<lambda>s'. Inr (setLastHit
                                (Some (makeLastHit E dSvg x y (LNum sectorNumber_v) mult_v rawScore_v
                                         (Some atanDeg_v) (Some angleFromTop_v) (Some sectorIndex_v))) s'))))))"

text \<open>
  \<open>applyManualHit\<close>: the hit chosen in the two select boxes. The raw score is
  the product of the two selected numbers, rounded as \<open>*\<close> rounds.
\<close>

definition applyManualHit :: "engine \<Rightarrow> state \<Rightarrow> error + state" where
  "applyManualHit E s =
     (if length (players s) = 0 then Inr s
      else case manualSector s of
        BULL \<Rightarrow>
          andThen (recordHit (activePlayerIndex s) (LStr innerBullLabel) 1 (Num 50) s)
            (\<lambda>s'. Inr (setLastHit
               (Some (makeLastHit E (Num INNER_BULL_R) 0 (- INNER_BULL_R) (LNum 50) 1 50 None None None)) s'))
      | OB \<Rightarrow>
          andThen (recordHit (activePlayerIndex s) (LStr outerBullLabel) 1 (Num 25) s)
            (\<lambda>s'. Inr (setLastHit
               (Some (makeLastHit E (Num OUTER_BULL_R) 0 (- OUTER_BULL_R) (LNum 25) 1 25 None None None)) s'))
      | Sector sectorNumber_v \<Rightarrow>
          (let raw = sectorNumber_v * manualMult s in
           andThen (recordHit (activePlayerIndex s) (LNum sectorNumber_v) (manualMult s)
                      (roundNum (of_int raw)) s)
             (\<lambda>s'. Inr (setLastHit
                (Some (makeLastHit E (Num TRIPLE_OUTER) 0 (- TRIPLE_OUTER) (LNum sectorNumber_v)
                         (manualMult s) raw None None None)) s'))))"

subsection \<open>User actions\<close>

text \<open>
  One constructor for each handler that a control of the page, or a caller of
  the component's functions, can trigger; \<open>run\<close> performs a sequence of them on
  an engine and stops at the first exception.
\<close>

datatype command =
    AddPlayer string
  | RemovePlayer string
  | ResetGame
  | SetStartingScore number
  | ToggleRunning
  | NextTurn
  | BoardClick mouseEvent "domRect option"
  | ManualHit
  | RecordHit int label int number
  | UndoLast int
  | SelectActive int
  | SetManualSector manualSel
  | SetManualMult int
  | SetShowAddPlayer bool
  | SetNewPlayerName string
  | SetShowDebug bool

fun step :: "engine \<Rightarrow> command \<Rightarrow> state \<Rightarrow> error + state" where
  "step E (AddPlayer nm) s = Inr (addPlayer nm s)"
| "step E (RemovePlayer i) s = Inr (removePlayer i s)"
| "step E ResetGame s = Inr (resetGame s)"
| "step E (SetStartingScore n) s = Inr (setStartingScore n s)"
| "step E ToggleRunning s = Inr (toggleRunning s)"
| "step E NextTurn s = Inr (nextTurn s)"
| "step E (BoardClick e el) s = onBoardClick E e el s"
| "step E ManualHit s = applyManualHit E s"
| "step E (RecordHit i lbl m raw) s = recordHit i lbl m raw s"
| "step E (UndoLast i) s = undoLast i s"
| "step E (SelectActive i) s = Inr (setActivePlayerIndex i s)"
| "step E (SetManualSector v) s = Inr (setManualSector v s)"
| "step E (SetManualMult v) s = Inr (setManualMult v s)"
| "step E (SetShowAddPlayer v) s = Inr (setShowAddPlayer v s)"
| "step E (SetNewPlayerName v) s = Inr (setNewPlayerName v s)"
| "step E (SetShowDebug v) s = Inr (setShowDebug v s)"

fun run :: "engine \<Rightarrow> command list \<Rightarrow> state \<Rightarrow> error + state" where
  "run E [] s = Inr s"
| "run E (c # cs) s = andThen (step E c s) (run E cs)"

subsection \<open>Properties and example states\<close>

text \<open>
  \<open>hasBase b p\<close>: the score of the player \<open>p\<close> is \<open>b\<close> plus the deltas of the
  player's history, all of them finite numbers and the sum taken exactly.
  \<open>scoreConsistent\<close>: this holds of every player for the configured starting
  score.
\<close>

fun isNum :: "number \<Rightarrow> bool" where
  "isNum (Num x) = True"
| "isNum a = False"

fun numVal :: "number \<Rightarrow> real" where
  "numVal (Num x) = x"
| "numVal a = 0"

definition hasBase :: "number \<Rightarrow> player \<Rightarrow> bool" where
  "hasBase b p =
     (isNum b \<and> isNum (score p) \<and> list_all (\<lambda>ev. isNum (delta ev)) (history p) \<and>
      numVal (score p) = numVal b + sum_list (map (\<lambda>ev. numVal (delta ev)) (history p)))"

definition scoreConsistent :: "state \<Rightarrow> bool" where
  "scoreConsistent s = list_all (hasBase (startingScore s)) (players s)"

text \<open>
  The starting score that was configured when each player was added or, after
  that, when the game was last reset: a list alongside the player list, kept
  by \<open>basesStep\<close> through every action. \<open>bases E cs s bs\<close> is that list after the
  actions \<open>cs\<close> from the state \<open>s\<close> with the list \<open>bs\<close>.
\<close>

fun basesStep :: "command \<Rightarrow> state \<Rightarrow> number list \<Rightarrow> number list" where
  "basesStep (AddPlayer nm) s bs = bs @ [startingScore s]"
| "basesStep (RemovePlayer i) s bs =
     map snd (filter (\<lambda>pb. player_id (fst pb) \<noteq> i) (zip (players s) bs))"
| "basesStep ResetGame s bs = map (\<lambda>b. startingScore s) bs"
| "basesStep c s bs = bs"

fun bases :: "engine \<Rightarrow> command list \<Rightarrow> state \<Rightarrow> number list \<Rightarrow> number list" where
  "bases E [] s bs = bs"
| "bases E (c # cs) s bs =
     (case step E c s of Inl e \<Rightarrow> bs | Inr s' \<Rightarrow> bases E cs s' (basesStep c s bs))"

text \<open>
  A score is safe when it is an integer of magnitude at most \<open>2^52\<close>: sums and
  differences of two such numbers are binary64 values. A state is safe when
  the starting score and every score and delta in it are; a run is safe when
  every state it passes through is.
\<close>

definition safeInt :: "number \<Rightarrow> bool" where
  "safeInt a = (isNum a \<and> of_int \<lfloor>numVal a\<rfloor> = numVal a \<and> \<bar>numVal a\<bar> \<le> 2 ^ 52)"

definition safeState :: "state \<Rightarrow> bool" where
  "safeState s =
     (safeInt (startingScore s) \<and>
      list_all (\<lambda>p. safeInt (score p) \<and> list_all (\<lambda>ev. safeInt (delta ev)) (history p))
        (players s))"

fun safeRun :: "engine \<Rightarrow> command list \<Rightarrow> state \<Rightarrow> bool" where
  "safeRun E [] s = safeState s"
| "safeRun E (c # cs) s =
     (safeState s \<and> (case step E c s of Inl e \<Rightarrow> True | Inr s' \<Rightarrow> safeRun E cs s'))"

text \<open>
  The player ids are distinct and each is \<open>String j\<close> for a counter value \<open>j\<close>
  already used, from 1 up to \<open>nextId - 1\<close>.
\<close>

definition idsFresh :: "state \<Rightarrow> bool" where
  "idsFresh s =
     (0 < nextId s \<and>
      list_all (\<lambda>p. player_id p \<in> String ` {1..<nextId s}) (players s) \<and>
      distinct (map player_id (players s)))"

text \<open>
  The outcome of a board click, as it can be read off the recorded throw and the
  last hit: the two bulls by their labels, the rings by the multiplier.
\<close>

datatype ring = InnerBull | OuterBull | Triple | Double | Single

definition recordedRing :: "scoreEvent \<Rightarrow> lastHit \<Rightarrow> ring" where
  "recordedRing ev h =
     (if desc ev = innerBullLabel then InnerBull
      else if desc ev = outerBullLabel then OuterBull
      else if mult h = 3 then Triple
      else if mult h = 2 then Double
      else Single)"

text \<open>
  The chain of comparisons of \<open>onBoardClick\<close>, in pixels: the pointer distance
  against the ring radii scaled by \<open>Rpx / SVG_RADIUS\<close>.
\<close>

definition pixelClassify :: "real \<Rightarrow> real \<Rightarrow> ring" where
  "pixelClassify Rpx distPx =
     (if distPx \<le> Rpx * (INNER_BULL_R / SVG_RADIUS) then InnerBull
      else if distPx \<le> Rpx * (OUTER_BULL_R / SVG_RADIUS) then OuterBull
      else if distPx \<ge> Rpx * (TRIPLE_INNER / SVG_RADIUS) \<and> distPx \<le> Rpx * (TRIPLE_OUTER / SVG_RADIUS)
        then Triple
      else if distPx \<ge> Rpx * (DOUBLE_INNER / SVG_RADIUS) \<and> distPx \<le> Rpx * (DOUBLE_OUTER / SVG_RADIUS)
        then Double
      else Single)"

text \<open>
  The classification as the specification words it, in the normalized board
  space of radius 50: \<open>normalized = real * (50 / displayRadius)\<close>, compared with
  the ring radii 5, 10, 23, 28, 38 and 44, all bounds inclusive.
\<close>

definition normalized :: "real \<Rightarrow> real \<Rightarrow> real" where
  "normalized displayRadius v = v * (50 / displayRadius)"

definition normalizedClassify :: "real \<Rightarrow> real \<Rightarrow> ring" where
  "normalizedClassify displayRadius distance =
     (let d = normalized displayRadius distance in
      if d \<le> 5 then InnerBull
      else if d \<le> 10 then OuterBull
      else if 23 \<le> d \<and> d \<le> 28 then Triple
      else if 38 \<le> d \<and> d \<le> 44 then Double
      else Single)"

text \<open>States and inputs used in the examples.\<close>

definition onePlayer :: state where
  "onePlayer = addPlayer ''Ann'' initialState"

definition twoPlayers :: state where
  "twoPlayers = addPlayer ''Bob'' (addPlayer ''Ann'' initialState)"

definition exampleGame :: "command list" where
  "exampleGame =
     [SetStartingScore (Num 301), AddPlayer ''Ann'', AddPlayer ''Bob'',
      RecordHit 0 (LNum 20) 3 (Num 60), RecordHit 0 (LNum 20) 3 (Num 60), UndoLast 0, NextTurn,
      ManualHit, SetStartingScore (Num 701), ResetGame, RecordHit 1 (LStr ''x'') 1 (Num 25)]"

definition mixedGame :: "command list" where
  "mixedGame =
     [AddPlayer ''Ann'', SetStartingScore (Num 301), AddPlayer ''Bob'',
      RecordHit 1 (LNum 20) 1 (Num 20)]"

definition board460 :: domRect where
  "board460 = \<lparr>rect_left = 0, rect_top = 0, rect_width = 460, rect_height = 460\<rparr>"

section \<open>Basic facts about the handlers\<close>

lemma String_1: "String 1 = ''1''"
  by code_simp

lemma String_2: "String 2 = ''2''"
  by code_simp

lemma String_20: "String 20 = ''20''"
  by code_simp

lemma onePlayer_eq:
  "onePlayer = initialState\<lparr>nextId := 2,
     players := [\<lparr>player_id = ''1'', name = ''Ann'', score = Num 501, history = []\<rparr>]\<rparr>"
  by (simp add: onePlayer_def addPlayer_def initialState_def String_1)

lemma twoPlayers_eq:
  "twoPlayers = initialState\<lparr>nextId := 3,
     players := [\<lparr>player_id = ''1'', name = ''Ann'', score = Num 501, history = []\<rparr>,
                 \<lparr>player_id = ''2'', name = ''Bob'', score = Num 501, history = []\<rparr>]\<rparr>"
  by (simp add: twoPlayers_def addPlayer_def initialState_def String_1 String_2)

lemma recordHit_valid:
  assumes "0 \<le> i" and "i < int (length (players s))"
  shows "recordHit i lbl m raw s =
           Inr (s\<lparr>players := (players s)[nat i := (players s ! nat i)
                   \<lparr>score := jsAdd (score (players s ! nat i)) (jsNeg raw),
                    history := \<lparr>desc = (case lbl of LNum n \<Rightarrow> String m @ timesSign @ String n
                                                   | LStr t \<Rightarrow> t),
                                delta = jsNeg raw\<rparr> # history (players s ! nat i)\<rparr>]\<rparr>)"
  using assms by (simp add: recordHit_def Let_def)

lemma recordHit_invalid:
  "\<not> (0 \<le> i \<and> i < int (length (players s))) \<Longrightarrow> recordHit i lbl m raw s = Inl TypeError"
  by (auto simp: recordHit_def Let_def)

lemma undoLast_valid:
  assumes "0 \<le> i" and "i < int (length (players s))"
  shows "undoLast i s =
           (case history (players s ! nat i) of
              [] \<Rightarrow> Inr s
            | ev # rest \<Rightarrow>
                Inr (s\<lparr>players := (players s)[nat i := (players s ! nat i)
                        \<lparr>score := jsSub (score (players s ! nat i)) (delta ev),
                         history := rest\<rparr>]\<rparr>))"
  using assms by (simp add: undoLast_def Let_def)

lemma undoLast_invalid:
  "\<not> (0 \<le> i \<and> i < int (length (players s))) \<Longrightarrow> undoLast i s = Inl TypeError"
  by (auto simp: undoLast_def Let_def)

lemma andThen_Inr: "andThen r f = Inr s' \<longleftrightarrow> (\<exists>s1. r = Inr s1 \<and> f s1 = Inr s')"
  by (cases r) (simp_all add: andThen_def)

lemma js_rem_nonneg: "0 \<le> a \<Longrightarrow> 0 < b \<Longrightarrow> js_rem a b = a mod b"
  by (cases "a = 0") (simp_all add: js_rem_def)

lemma onBoardClick_cases:
  assumes "onBoardClick E e el s = Inr s'"
  shows "s' = s \<or> (\<exists>lbl m raw h s1. recordHit (activePlayerIndex s) lbl m raw s = Inr s1 \<and>
                       s' = setLastHit (Some h) s1)"
  using assms unfolding onBoardClick_def Let_def
  by (auto simp: andThen_Inr split: if_splits option.splits) blast+

lemma applyManualHit_cases:
  assumes "applyManualHit E s = Inr s'"
  shows "s' = s \<or> (\<exists>lbl m raw h s1. recordHit (activePlayerIndex s) lbl m raw s = Inr s1 \<and>
                       s' = setLastHit (Some h) s1)"
  using assms unfolding applyManualHit_def Let_def
  by (auto simp: andThen_Inr split: if_splits manualSel.splits) blast+

section \<open>Facts about binary64 rounding\<close>

lemma round_half_even_of_int: "round_half_even (of_int n) = n"
  by (simp add: round_half_even_def)

lemma round_half_even_error: "\<bar>of_int (round_half_even r) - r\<bar> \<le> 1 / 2"
proof -
  have "of_int \<lfloor>r\<rfloor> \<le> r" and "r < of_int \<lfloor>r\<rfloor> + 1" by linarith+
  then show ?thesis by (auto simp: round_half_even_def Let_def)
qed

lemma powr_powi: "(2::real) powr real_of_int k = 2 powi k"
  by (simp add: powr_real_of_int')

lemma powr_powi_Suc: "(2::real) powr (real_of_int k + 1) = 2 powi (k + 1)"
proof -
  have "real_of_int k + 1 = real_of_int (k + 1)" by simp
  then show ?thesis by (simp only: powr_powi)
qed

lemma powi_pos: "0 < (2::real) powi k"
  by simp

lemma floor_log2_eq:
  assumes "2 powi k \<le> a" and "a < 2 powi (k + 1)"
  shows "\<lfloor>log 2 a\<rfloor> = k"
proof -
  have pos: "0 < a" using assms(1) powi_pos [of k] by linarith
  have "2 powr (real_of_int k) \<le> a" and "a < 2 powr (real_of_int k + 1)"
    using assms by (simp_all only: powr_powi powr_powi_Suc)
  moreover have "\<lfloor>log 2 a\<rfloor> = k \<longleftrightarrow> 2 powr real_of_int k \<le> a \<and> a < 2 powr (real_of_int k + 1)"
    using pos by (simp add: floor_log_eq_powr_iff)
  ultimately show ?thesis by blast
qed

lemma floor_log2_bounds:
  assumes "0 < a"
  shows "2 powi \<lfloor>log 2 a\<rfloor> \<le> a" and "a < 2 powi (\<lfloor>log 2 a\<rfloor> + 1)"
proof -
  have "2 powr (real_of_int \<lfloor>log 2 a\<rfloor>) \<le> a \<and> a < 2 powr (real_of_int \<lfloor>log 2 a\<rfloor> + 1)"
    using assms floor_log_eq_powr_iff [of a 2 "\<lfloor>log 2 a\<rfloor>"] by simp
  then show "2 powi \<lfloor>log 2 a\<rfloor> \<le> a" and "a < 2 powi (\<lfloor>log 2 a\<rfloor> + 1)"
    by (simp_all only: powr_powi powr_powi_Suc)
qed


lemma binary64_exponent_eq:
  assumes "2 powi k \<le> \<bar>x\<bar>" and "\<bar>x\<bar> < 2 powi (k + 1)"
  shows "binary64_exponent x = max k (- 1022)"
  using floor_log2_eq [OF assms] by (simp add: binary64_exponent_def)

lemma fl64_eval:
  assumes "2 powi k \<le> \<bar>x\<bar>" and "\<bar>x\<bar> < 2 powi (k + 1)" and "- 1022 \<le> k"
  shows "fl64 x = of_int (round_half_even (x / 2 powi (k - 52))) * 2 powi (k - 52)"
proof -
  have "0 < \<bar>x\<bar>" using assms(1) powi_pos [of k] by linarith
  then have "x \<noteq> 0" by simp
  moreover have "binary64_exponent x = k"
    using binary64_exponent_eq [OF assms(1,2)] assms(3) by simp
  ultimately show ?thesis by (simp add: fl64_def)
qed

lemma div_cancel_left: "(a::real) = m * (u * p) \<Longrightarrow> u \<noteq> 0 \<Longrightarrow> a / u = m * p"
  by simp

lemma fl64_dyadic:
  assumes x: "x = of_int m * 2 powi j" and m: "\<bar>m\<bar> < 2 ^ 53" and j: "- 1074 \<le> j"
  shows "fl64 x = x"
proof (cases "m = 0")
  case True
  then show ?thesis using x by (simp add: fl64_def)
next
  case False
  have pj: "0 < (2::real) powi j" by (rule powi_pos)
  have ax: "\<bar>x\<bar> = of_int \<bar>m\<bar> * 2 powi j"
    using x pj by (simp add: abs_mult)
  have "1 \<le> \<bar>m\<bar>" using False by simp
  then have "(1::real) \<le> of_int \<bar>m\<bar>" by (simp only: of_int_1_le_iff)
  then have pos: "0 < \<bar>x\<bar>" using ax pj by simp
  let ?k = "\<lfloor>log 2 \<bar>x\<bar>\<rfloor>"
  let ?e = "binary64_exponent x"
  have lo: "2 powi ?k \<le> \<bar>x\<bar>" using pos by (rule floor_log2_bounds(1))
  have "real_of_int \<bar>m\<bar> < 2 ^ 53" using m by (metis of_int_less_numeral_power_cancel_iff)
  then have "\<bar>x\<bar> < 2 ^ 53 * 2 powi j" using ax pj by simp
  also have "\<dots> = 2 powi (j + 53)" by (simp add: power_int_add)
  finally have "2 powi ?k < (2::real) powi (j + 53)" using lo by simp
  then have "?k < j + 53"
    using power_int_increasing [of "j + 53" ?k "2::real"] by force
  then have e: "?e - 52 \<le> j" using j by (simp add: binary64_exponent_def)
  define d where "d = nat (j - (?e - 52))"
  have jd: "j = (?e - 52) + int d" using e by (simp add: d_def)
  have split: "(2::real) powi j = 2 powi (?e - 52) * 2 ^ d"
    by (subst jd, subst power_int_add) simp_all
  have "x = of_int m * (2 powi (?e - 52) * 2 ^ d)"
    using x by (simp only: split)
  then have "x / 2 powi (?e - 52) = of_int m * 2 ^ d"
    by (rule div_cancel_left) simp
  then have q: "x / 2 powi (?e - 52) = of_int (m * 2 ^ d)"
    by simp
  have "fl64 x = of_int (round_half_even (x / 2 powi (?e - 52))) * 2 powi (?e - 52)"
    using pos by (simp add: fl64_def)
  also have "\<dots> = of_int (m * 2 ^ d) * 2 powi (?e - 52)"
    by (simp only: q round_half_even_of_int)
  also have "\<dots> = of_int m * (2 powi (?e - 52) * 2 ^ d)" by simp
  also have "\<dots> = x" using x by (simp only: split)
  finally show ?thesis .
qed

lemma fl64_int:
  assumes "\<bar>n\<bar> \<le> 2 ^ 53"
  shows "fl64 (of_int n) = of_int n"
proof -
  consider "\<bar>n\<bar> < 2 ^ 53" | "n = 2 ^ 53" | "n = - (2 ^ 53)"
    using assms by linarith
  then show ?thesis
  proof cases
    case 1
    then show ?thesis by (intro fl64_dyadic [where m = n and j = 0]) simp_all
  next
    case 2
    then show ?thesis by (intro fl64_dyadic [where m = 1 and j = 53]) simp_all
  next
    case 3
    then show ?thesis by (intro fl64_dyadic [where m = "- 1" and j = 53]) simp_all
  qed
qed

lemma fl64_error:
  assumes "x \<noteq> 0"
  shows "\<bar>fl64 x - x\<bar> \<le> 2 powi (binary64_exponent x - 53)"
proof -
  let ?u = "(2::real) powi (binary64_exponent x - 52)"
  have u: "0 < ?u" by (rule powi_pos)
  have "fl64 x - x = (of_int (round_half_even (x / ?u)) - x / ?u) * ?u"
    using assms u by (simp add: fl64_def field_simps)
  then have "\<bar>fl64 x - x\<bar> = \<bar>of_int (round_half_even (x / ?u)) - x / ?u\<bar> * ?u"
    using u by (simp add: abs_mult)
  also have "\<dots> \<le> 1 / 2 * ?u"
    using round_half_even_error [of "x / ?u"] u by (intro mult_right_mono) simp_all
  also have "\<dots> = 2 powi (binary64_exponent x - 53)"
  proof -
    have "binary64_exponent x - 52 = (binary64_exponent x - 53) + 1" by simp
    then have "?u = 2 powi ((binary64_exponent x - 53) + 1)" by simp
    also have "\<dots> = 2 powi (binary64_exponent x - 53) * 2"
      by (rule power_int_add_1) simp
    finally show ?thesis by simp
  qed
  finally show ?thesis .
qed

lemma fl64_error_small:
  assumes "\<bar>x\<bar> \<le> 1024"
  shows "\<bar>fl64 x - x\<bar> \<le> 1 / 8"
proof (cases "x = 0")
  case True
  then show ?thesis by (simp add: fl64_def)
next
  case False
  then have pos: "0 < \<bar>x\<bar>" by simp
  have "2 powi \<lfloor>log 2 \<bar>x\<bar>\<rfloor> \<le> \<bar>x\<bar>" using pos by (rule floor_log2_bounds(1))
  then have "2 powi \<lfloor>log 2 \<bar>x\<bar>\<rfloor> < (2::real) powi 11" using assms by simp
  then have "\<lfloor>log 2 \<bar>x\<bar>\<rfloor> < 11"
    using power_int_increasing [of 11 "\<lfloor>log 2 \<bar>x\<bar>\<rfloor>" "2::real"] by force
  then have "binary64_exponent x - 53 \<le> - 3" by (simp add: binary64_exponent_def)
  then have "(2::real) powi (binary64_exponent x - 53) \<le> 2 powi (- 3)"
    by (intro power_int_increasing) simp_all
  also have "\<dots> = 1 / 8" by (simp add: power_int_minus)
  finally show ?thesis using fl64_error [OF False] by linarith
qed

lemma round_half_even_nonneg: "0 \<le> r \<Longrightarrow> 0 \<le> round_half_even r"
  by (auto simp: round_half_even_def Let_def)

lemma fl64_nonneg: "0 \<le> x \<Longrightarrow> 0 \<le> fl64 x"
  by (simp add: fl64_def round_half_even_nonneg)

lemma round_half_even_mono:
  assumes "r \<le> s"
  shows "round_half_even r \<le> round_half_even s"
proof (cases "\<lfloor>r\<rfloor> = \<lfloor>s\<rfloor>")
  case True
  then show ?thesis using assms by (auto simp: round_half_even_def Let_def)
next
  case False
  have "\<lfloor>r\<rfloor> \<le> \<lfloor>s\<rfloor>" using assms by (rule floor_mono)
  then have "\<lfloor>r\<rfloor> < \<lfloor>s\<rfloor>" using False by simp
  moreover have "round_half_even r \<le> \<lfloor>r\<rfloor> + 1" by (auto simp: round_half_even_def Let_def)
  moreover have "\<lfloor>s\<rfloor> \<le> round_half_even s" by (auto simp: round_half_even_def Let_def)
  ultimately show ?thesis by linarith
qed

lemma powi_split:
  "(2::real) powi (e + 1) = 2 ^ 53 * 2 powi (e - 52)"
  "(2::real) powi e = 2 ^ 52 * 2 powi (e - 52)"
proof -
  have a: "e + 1 = 53 + (e - 52)" and b: "e = 52 + (e - 52)" by simp_all
  have "(2::real) powi (53 + (e - 52)) = 2 powi 53 * 2 powi (e - 52)"
    by (rule power_int_add) simp
  also have "\<dots> = 2 ^ 53 * 2 powi (e - 52)" by simp
  finally show "(2::real) powi (e + 1) = 2 ^ 53 * 2 powi (e - 52)" by (simp only: a [symmetric])
  have "(2::real) powi (52 + (e - 52)) = 2 powi 52 * 2 powi (e - 52)"
    by (rule power_int_add) simp
  also have "\<dots> = 2 ^ 52 * 2 powi (e - 52)" by simp
  finally show "(2::real) powi e = 2 ^ 52 * 2 powi (e - 52)" by (simp only: b [symmetric])
qed

lemma fl64_upper:
  assumes "0 < a"
  shows "fl64 a \<le> 2 powi (binary64_exponent a + 1)"
proof -
  let ?e = "binary64_exponent a"
  let ?u = "(2::real) powi (?e - 52)"
  have u: "0 < ?u" by (rule powi_pos)
  have "\<lfloor>log 2 a\<rfloor> + 1 \<le> ?e + 1" using assms by (simp add: binary64_exponent_def)
  then have "(2::real) powi (\<lfloor>log 2 a\<rfloor> + 1) \<le> 2 powi (?e + 1)"
    by (intro power_int_increasing) simp_all
  then have "a \<le> 2 powi (?e + 1)"
    using floor_log2_bounds(2) [OF assms] by linarith
  then have "a \<le> 2 ^ 53 * ?u" by (simp only: powi_split(1))
  then have "a / ?u \<le> 2 ^ 53" using u by (simp add: pos_divide_le_eq)
  then have "a / ?u \<le> of_int (2 ^ 53)" by simp
  then have "round_half_even (a / ?u) \<le> round_half_even (of_int (2 ^ 53))"
    by (rule round_half_even_mono)
  then have "round_half_even (a / ?u) \<le> 2 ^ 53" by (simp only: round_half_even_of_int)
  then have "real_of_int (round_half_even (a / ?u)) \<le> 2 ^ 53"
    by (metis of_int_le_numeral_power_cancel_iff)
  then have m: "of_int (round_half_even (a / ?u)) * ?u \<le> 2 ^ 53 * ?u"
    using u by (intro mult_right_mono) simp_all
  have f: "fl64 a = of_int (round_half_even (a / ?u)) * ?u"
    using assms by (simp add: fl64_def)
  have "2 powi (?e + 1) = 2 ^ 53 * ?u" by (rule powi_split(1))
  then show ?thesis using m f by linarith
qed

lemma fl64_lower:
  assumes "0 < b" and "- 1022 < binary64_exponent b"
  shows "2 powi (binary64_exponent b) \<le> fl64 b"
proof -
  let ?e = "binary64_exponent b"
  let ?u = "(2::real) powi (?e - 52)"
  have u: "0 < ?u" by (rule powi_pos)
  have e: "?e = \<lfloor>log 2 b\<rfloor>" using assms by (simp add: binary64_exponent_def split: if_splits)
  have "2 powi ?e \<le> b" unfolding e using assms(1) by (rule floor_log2_bounds(1))
  then have "2 ^ 52 * ?u \<le> b" by (simp only: powi_split(2) [symmetric])
  then have "2 ^ 52 \<le> b / ?u" using u by (simp add: pos_le_divide_eq)
  then have "of_int (2 ^ 52) \<le> b / ?u" by simp
  then have "round_half_even (of_int (2 ^ 52)) \<le> round_half_even (b / ?u)"
    by (rule round_half_even_mono)
  then have "2 ^ 52 \<le> round_half_even (b / ?u)" by (simp only: round_half_even_of_int)
  then have "2 ^ 52 \<le> real_of_int (round_half_even (b / ?u))"
    by (metis numeral_power_le_of_int_cancel_iff)
  then have m: "2 ^ 52 * ?u \<le> of_int (round_half_even (b / ?u)) * ?u"
    using u by (intro mult_right_mono) simp_all
  have f: "fl64 b = of_int (round_half_even (b / ?u)) * ?u"
    using assms(1) by (simp add: fl64_def)
  have "2 powi ?e = 2 ^ 52 * ?u" by (rule powi_split(2))
  then show ?thesis using m f by linarith
qed

lemma binary64_exponent_mono:
  assumes "0 < a" and "a \<le> b"
  shows "binary64_exponent a \<le> binary64_exponent b"
proof -
  have "log 2 a \<le> log 2 b" using assms by simp
  then have "\<lfloor>log 2 a\<rfloor> \<le> \<lfloor>log 2 b\<rfloor>" by (rule floor_mono)
  then show ?thesis using assms by (simp add: binary64_exponent_def)
qed

lemma fl64_mono_nonneg:
  assumes "0 \<le> a" and "a \<le> b"
  shows "fl64 a \<le> fl64 b"
proof (cases "a = 0")
  case True
  then show ?thesis using assms fl64_nonneg [of b] by (simp add: fl64_def)
next
  case False
  then have a: "0 < a" using assms(1) by simp
  then have b: "0 < b" using assms(2) by linarith
  let ?ea = "binary64_exponent a" and ?eb = "binary64_exponent b"
  have e: "?ea \<le> ?eb" using a assms(2) by (rule binary64_exponent_mono)
  show ?thesis
  proof (cases "?ea = ?eb")
    case True
    let ?u = "(2::real) powi (?ea - 52)"
    have u: "0 < ?u" by (rule powi_pos)
    have "a / ?u \<le> b / ?u" using assms(2) u by (simp add: divide_right_mono)
    then have "round_half_even (a / ?u) \<le> round_half_even (b / ?u)"
      by (rule round_half_even_mono)
    then have "real_of_int (round_half_even (a / ?u)) \<le> of_int (round_half_even (b / ?u))"
      by simp
    then have "of_int (round_half_even (a / ?u)) * ?u \<le> of_int (round_half_even (b / ?u)) * ?u"
      using u by (intro mult_right_mono) simp_all
    then show ?thesis using a b True by (simp add: fl64_def)
  next
    case False
    then have lt: "?ea + 1 \<le> ?eb" using e by simp
    have "- 1022 \<le> ?ea" by (simp add: binary64_exponent_def)
    then have n: "- 1022 < ?eb" using lt by linarith
    have "fl64 a \<le> 2 powi (?ea + 1)" using a by (rule fl64_upper)
    also have "\<dots> \<le> 2 powi ?eb" using lt by (intro power_int_increasing) simp_all
    also have "\<dots> \<le> fl64 b" using b n by (rule fl64_lower)
    finally show ?thesis .
  qed
qed

lemma roundNum_exact:
  assumes "fl64 x = x" and "\<bar>x\<bar> < 2 ^ 1024"
  shows "roundNum x = Num x"
proof -
  have "x < 2 ^ 1024" and "- (2 ^ 1024) < x" using assms(2) by linarith+
  then show ?thesis using assms(1) by (simp add: roundNum_def)
qed

lemma roundNum_int:
  assumes "\<bar>n\<bar> \<le> 2 ^ 53"
  shows "roundNum (of_int n) = Num (of_int n)"
proof -
  have "\<bar>real_of_int n\<bar> \<le> 2 ^ 53"
    using assms by (metis of_int_abs of_int_le_numeral_power_cancel_iff)
  moreover have "(2::real) ^ 53 < 2 ^ 1024" by simp
  ultimately have "\<bar>real_of_int n\<bar> < 2 ^ 1024" by linarith
  then show ?thesis using fl64_int [OF assms] by (rule roundNum_exact [rotated])
qed

lemma roundNum_safe:
  assumes "of_int \<lfloor>x\<rfloor> = x" and "\<bar>x\<bar> \<le> 2 ^ 53"
  shows "roundNum x = Num x"
proof -
  have "\<bar>real_of_int \<lfloor>x\<rfloor>\<bar> \<le> 2 ^ 53" using assms(2) by (simp only: assms(1))
  then have "\<bar>\<lfloor>x\<rfloor>\<bar> \<le> 2 ^ 53"
    by (metis of_int_abs of_int_le_numeral_power_cancel_iff)
  then have "roundNum (of_int \<lfloor>x\<rfloor>) = Num (of_int \<lfloor>x\<rfloor>)" by (rule roundNum_int)
  then show ?thesis by (simp only: assms(1))
qed

lemma fl64_big: "fl64 (501 - 2 ^ 54) = - 18014398509481484"
  by (subst fl64_eval [where k = 53])
     (simp_all add: round_half_even_def power_int_minus Let_def)

section \<open>Undo inverts record\<close>

text \<open>
  Claim C2, as amended. For a valid player index, a finite score \<open>a\<close> of that
  player and a finite raw score \<open>r\<close> such that the difference \<open>a - r\<close> is a
  binary64 value, as \<open>a\<close> itself is, \<open>recordHit\<close> succeeds and \<open>undoLast\<close> applied
  to its result gives back the state from which \<open>recordHit\<close> started: every
  player's score and history and every other field. This is so in particular
  when \<open>a\<close> and \<open>r\<close> are integers and \<open>a\<close> and \<open>a - r\<close> are of magnitude at most
  \<open>2^53\<close> (lemma \<open>roundNum_int\<close>).
\<close>

theorem undoLast_recordHit:
  assumes "0 \<le> i" and "i < int (length (players s))"
    and "score (players s ! nat i) = Num a"
    and "roundNum a = Num a" and "roundNum (a - r) = Num (a - r)"
  shows "\<exists>s'. recordHit i lbl m (Num r) s = Inr s' \<and> undoLast i s' = Inr s"
proof -
  have k: "nat i < length (players s)" using assms(1,2) by linarith
  let ?p = "players s ! nat i"
  let ?d = "case lbl of LNum n \<Rightarrow> String m @ timesSign @ String n | LStr t \<Rightarrow> t"
  let ?p' = "?p\<lparr>score := Num (a - r), history := \<lparr>desc = ?d, delta = Num (- r)\<rparr> # history ?p\<rparr>"
  let ?s' = "s\<lparr>players := (players s)[nat i := ?p']\<rparr>"
  have rec: "recordHit i lbl m (Num r) s = Inr ?s'"
    using assms(1,2,3,5) by (simp add: recordHit_valid)
  have sub: "jsSub (Num (a - r)) (Num (- r)) = Num a"
    using assms(4) by (simp add: jsSub_def)
  have "(players s ! nat i)\<lparr>score := Num a, history := history (players s ! nat i)\<rparr> =
          players s ! nat i"
    using assms(3) by (cases "players s ! nat i") simp
  then have "undoLast i ?s' = Inr s"
    using assms(1,2) k sub by (simp add: undoLast_valid list_update_same_conv)
  with rec show ?thesis by blast
qed

theorem undoLast_recordHit_witness:
  "(0::int) \<le> 0 \<and> 0 < int (length (players onePlayer)) \<and>
   score (players onePlayer ! nat 0) = Num 501 \<and>
   roundNum 501 = Num 501 \<and> roundNum (501 - 60) = Num (501 - 60) \<and>
   (\<exists>s'. recordHit 0 (LNum 20) 3 (Num 60) onePlayer = Inr s' \<and> undoLast 0 s' = Inr onePlayer)"
proof -
  have a: "roundNum 501 = Num 501" using roundNum_int [of 501] by simp
  have b: "roundNum (501 - 60) = Num (501 - 60)" using roundNum_int [of 441] by simp
  have c: "score (players onePlayer ! nat 0) = Num 501"
    by (simp add: onePlayer_eq initialState_def)
  have d: "(0::int) < int (length (players onePlayer))"
    by (simp add: onePlayer_eq initialState_def)
  show ?thesis
    using undoLast_recordHit [OF _ d c a b, of "LNum 20" 3] a b c d by simp
qed

text \<open>
  The claim as stated fails. With one player at score 501, a hit with the raw
  score \<open>2^54\<close> leaves the score \<open>501 - 2^54\<close> rounded to binary64, which is
  \<open>-18014398509481484\<close> and not \<open>-18014398509481483\<close>, and \<open>undoLast\<close> then gives
  the score 500.
\<close>

theorem undoLast_recordHit_counterexample:
  "recordHit 0 (LStr ''x'') 1 (Num 18014398509481984) onePlayer =
     Inr (onePlayer\<lparr>players :=
       [\<lparr>player_id = ''1'', name = ''Ann'', score = Num (- 18014398509481484),
         history = [\<lparr>desc = ''x'', delta = Num (- 18014398509481984)\<rparr>]\<rparr>]\<rparr>) \<and>
   undoLast 0 (onePlayer\<lparr>players :=
       [\<lparr>player_id = ''1'', name = ''Ann'', score = Num (- 18014398509481484),
         history = [\<lparr>desc = ''x'', delta = Num (- 18014398509481984)\<rparr>]\<rparr>]\<rparr>) =
     Inr (onePlayer\<lparr>players :=
       [\<lparr>player_id = ''1'', name = ''Ann'', score = Num 500, history = []\<rparr>]\<rparr>) \<and>
   onePlayer\<lparr>players :=
       [\<lparr>player_id = ''1'', name = ''Ann'', score = Num 500, history = []\<rparr>]\<rparr> \<noteq> onePlayer \<and>
   map score (players onePlayer) = [Num 501]"
proof -
  have a: "roundNum (501 - 18014398509481984) = Num (- 18014398509481484)"
    using fl64_big by (simp add: roundNum_def)
  have b: "roundNum (- 18014398509481484 + 18014398509481984) = Num 500"
    using roundNum_int [of 500] by simp
  show ?thesis
    using a b by (simp add: onePlayer_eq initialState_def recordHit_def undoLast_def jsSub_def)
qed

section \<open>Score and history consistency\<close>

lemma roundNum_numeral:
  "(numeral k :: int) \<le> 2 ^ 53 \<Longrightarrow> roundNum (numeral k) = Num (numeral k)"
  using roundNum_int [of "numeral k"] by simp

lemma safeInt_int: "safeInt (Num (of_int n)) \<longleftrightarrow> \<bar>n\<bar> \<le> 2 ^ 52"
proof -
  have "\<bar>real_of_int n\<bar> \<le> 2 ^ 52 \<longleftrightarrow> \<bar>n\<bar> \<le> 2 ^ 52"
    by (metis of_int_abs of_int_le_numeral_power_cancel_iff)
  then show ?thesis by (simp add: safeInt_def)
qed

lemma safeInt_numeral: "safeInt (Num (numeral k)) \<longleftrightarrow> (numeral k :: int) \<le> 2 ^ 52"
  using safeInt_int [of "numeral k"] by simp

lemma safeInt_neg_numeral: "safeInt (Num (- numeral k)) \<longleftrightarrow> (numeral k :: int) \<le> 2 ^ 52"
  using safeInt_int [of "- numeral k"] by simp

lemma hasBase_unique: "hasBase b p \<Longrightarrow> hasBase b' p \<Longrightarrow> b = b'"
  by (cases b; cases b') (simp_all add: hasBase_def)

lemma consistent_iff_bases:
  "list_all2 hasBase bs ps \<Longrightarrow> list_all (hasBase b) ps \<longleftrightarrow> list_all (\<lambda>b'. b' = b) bs"
  by (induction rule: list_all2_induct) (auto dest: hasBase_unique)

lemma list_all2_filter_zip:
  "list_all2 P bs ps \<Longrightarrow>
     list_all2 P (map snd (filter (\<lambda>pb. Q (fst pb)) (zip ps bs))) (filter Q ps)"
  by (induction rule: list_all2_induct) simp_all

lemma list_all2_update_right:
  assumes "list_all2 P bs ps" and "k < length ps" and "P (bs ! k) p'"
  shows "list_all2 P bs (ps[k := p'])"
proof -
  have "list_all2 P (bs[k := bs ! k]) (ps[k := p'])"
    using assms(1,3) by (rule list_all2_update_cong)
  then show ?thesis by simp
qed

lemma safeInt_Num: "safeInt a \<Longrightarrow> \<exists>x. a = Num x \<and> of_int \<lfloor>x\<rfloor> = x \<and> \<bar>x\<bar> \<le> 2 ^ 52"
  by (cases a) (simp_all only: safeInt_def isNum.simps numVal.simps number.inject simp_thms ex_simps)

lemma safe_difference:
  assumes a: "of_int \<lfloor>a\<rfloor> = (a::real)" "\<bar>a\<bar> \<le> 2 ^ 52"
    and r: "of_int \<lfloor>r\<rfloor> = (r::real)" "\<bar>r\<bar> \<le> 2 ^ 52"
  shows "roundNum (a - r) = Num (a - r)"
proof (rule roundNum_safe)
  have "a - r = of_int (\<lfloor>a\<rfloor> - \<lfloor>r\<rfloor>)"
    by (simp only: of_int_diff a(1) r(1))
  then have "\<lfloor>a - r\<rfloor> = \<lfloor>a\<rfloor> - \<lfloor>r\<rfloor>" by (simp only: floor_of_int)
  then show "of_int \<lfloor>a - r\<rfloor> = a - r"
    by (simp only: of_int_diff a(1) r(1))
  have "\<bar>a - r\<bar> \<le> \<bar>a\<bar> + \<bar>r\<bar>" by (rule abs_triangle_ineq4)
  then show "\<bar>a - r\<bar> \<le> 2 ^ 53" using a(2) r(2) by simp
qed

lemma safeState_player:
  assumes "safeState s" and "k < length (players s)"
  shows "safeInt (score (players s ! k))"
    and "list_all (\<lambda>ev. safeInt (delta ev)) (history (players s ! k))"
  using assms by (simp_all add: safeState_def list_all_length)

lemma recordHit_bases:
  assumes b: "list_all2 hasBase bs (players s)" and r: "recordHit i lbl m raw s = Inr s'"
    and s: "safeState s" and s': "safeState s'"
  shows "list_all2 hasBase bs (players s')"
proof (cases "0 \<le> i \<and> i < int (length (players s))")
  case False
  then show ?thesis using r by (simp add: recordHit_invalid)
next
  case True
  then have k: "nat i < length (players s)" by linarith
  let ?p = "players s ! nat i"
  let ?ev = "\<lparr>desc = (case lbl of LNum n \<Rightarrow> String m @ timesSign @ String n | LStr t \<Rightarrow> t),
              delta = jsNeg raw\<rparr>"
  let ?p' = "?p\<lparr>score := jsAdd (score ?p) (jsNeg raw), history := ?ev # history ?p\<rparr>"
  have eq: "s' = s\<lparr>players := (players s)[nat i := ?p']\<rparr>"
    using True r by (simp add: recordHit_valid)
  have ps': "players s' = (players s)[nat i := ?p']" by (simp add: eq)
  have k': "nat i < length (players s')" using k by (simp add: ps')
  have p': "players s' ! nat i = ?p'" using k by (simp add: ps')
  have "list_all (\<lambda>ev. safeInt (delta ev)) (history (players s' ! nat i))"
    using s' k' by (rule safeState_player(2))
  then have "safeInt (jsNeg raw)" by (simp add: p')
  then obtain d where d: "jsNeg raw = Num d" "of_int \<lfloor>d\<rfloor> = d" "\<bar>d\<bar> \<le> 2 ^ 52"
    using safeInt_Num by blast
  have "safeInt (score ?p)" using s k by (rule safeState_player(1))
  then obtain a where a: "score ?p = Num a" "of_int \<lfloor>a\<rfloor> = a" "\<bar>a\<bar> \<le> 2 ^ 52"
    using safeInt_Num by blast
  have md: "of_int \<lfloor>- d\<rfloor> = - d" "\<bar>- d\<bar> \<le> 2 ^ 52"
    using d(2,3) by (metis floor_of_int of_int_minus, simp)
  have "roundNum (a - (- d)) = Num (a - (- d))"
    using a(2,3) md by (rule safe_difference)
  then have sc: "jsAdd (score ?p) (Num d) = Num (a + d)" by (simp add: a(1))
  have hb: "hasBase (bs ! nat i) ?p" using b k by (simp add: list_all2_conv_all_nth)
  have "hasBase (bs ! nat i) ?p'"
    using hb unfolding d(1) sc by (simp add: hasBase_def a(1))
  with b k show ?thesis unfolding ps' by (rule list_all2_update_right)
qed

lemma undoLast_bases:
  assumes b: "list_all2 hasBase bs (players s)" and r: "undoLast i s = Inr s'"
    and s: "safeState s"
  shows "list_all2 hasBase bs (players s')"
proof (cases "0 \<le> i \<and> i < int (length (players s))")
  case False
  then show ?thesis using r by (simp add: undoLast_invalid)
next
  case True
  then have k: "nat i < length (players s)" by linarith
  let ?p = "players s ! nat i"
  show ?thesis
  proof (cases "history ?p")
    case Nil
    then show ?thesis using True r b by (simp add: undoLast_valid)
  next
    case (Cons ev rest)
    let ?p' = "?p\<lparr>score := jsSub (score ?p) (delta ev), history := rest\<rparr>"
    have ps': "players s' = (players s)[nat i := ?p']"
      using True r Cons by (auto simp: undoLast_valid)
    have "list_all (\<lambda>ev. safeInt (delta ev)) (history ?p)"
      using s k by (rule safeState_player(2))
    then have "safeInt (delta ev)" by (simp add: Cons)
    then obtain d where d: "delta ev = Num d" "of_int \<lfloor>d\<rfloor> = d" "\<bar>d\<bar> \<le> 2 ^ 52"
      using safeInt_Num by blast
    have "safeInt (score ?p)" using s k by (rule safeState_player(1))
    then obtain a where a: "score ?p = Num a" "of_int \<lfloor>a\<rfloor> = a" "\<bar>a\<bar> \<le> 2 ^ 52"
      using safeInt_Num by blast
    have "roundNum (a - d) = Num (a - d)"
      using a(2,3) d(2,3) by (rule safe_difference)
    then have sc: "jsSub (score ?p) (delta ev) = Num (a - d)"
      by (simp add: a(1) d(1) jsSub_def)
    have hb: "hasBase (bs ! nat i) ?p" using b k by (simp add: list_all2_conv_all_nth)
    have "hasBase (bs ! nat i) ?p'"
      using hb unfolding sc by (simp add: hasBase_def a(1) d(1) Cons)
    with b k show ?thesis unfolding ps' by (rule list_all2_update_right)
  qed
qed

lemma hit_bases:
  assumes b: "list_all2 hasBase bs (players s)"
    and h: "s' = s \<or> (\<exists>lbl m raw h s1. recordHit a lbl m raw s = Inr s1 \<and>
                       s' = setLastHit (Some h) s1)"
    and s: "safeState s" and s': "safeState s'"
  shows "list_all2 hasBase bs (players s')"
  using h
proof (elim disjE exE conjE)
  assume "s' = s"
  then show ?thesis using b by simp
next
  fix lbl m raw h s1
  assume r: "recordHit a lbl m raw s = Inr s1" and e: "s' = setLastHit (Some h) s1"
  have "safeState s1" using s' by (simp add: e setLastHit_def safeState_def)
  with b r s have "list_all2 hasBase bs (players s1)" by (rule recordHit_bases)
  then show ?thesis by (simp add: e setLastHit_def)
qed

lemma step_bases:
  assumes b: "list_all2 hasBase bs (players s)" and st: "step E c s = Inr s'"
    and s: "safeState s" and s': "safeState s'"
  shows "list_all2 hasBase (basesStep c s bs) (players s')"
proof (cases c)
  case (AddPlayer nm)
  let ?p = "\<lparr>player_id = String (nextId s),
             name = (if nm \<noteq> [] then nm else playerPrefix @ String (nextId s)),
             score = startingScore s, history = []\<rparr>"
  have "isNum (startingScore s)" using s by (simp add: safeState_def safeInt_def)
  then have hp: "hasBase (startingScore s) ?p" by (simp add: hasBase_def)
  have "players s' = players s @ [?p]"
    using st AddPlayer by (auto simp: addPlayer_def Let_def)
  moreover have "list_all2 hasBase (bs @ [startingScore s]) (players s @ [?p])"
    using b hp by (intro list_all2_appendI) simp_all
  ultimately show ?thesis using AddPlayer by simp
next
  case (RemovePlayer i)
  then have "players s' = filter (\<lambda>p. player_id p \<noteq> i) (players s)"
    using st by (auto simp: removePlayer_def)
  then show ?thesis
    using list_all2_filter_zip [OF b, of "\<lambda>p. player_id p \<noteq> i"] RemovePlayer by simp
next
  case ResetGame
  have n: "isNum (startingScore s)" using s by (simp add: safeState_def safeInt_def)
  have l: "length bs = length (players s)" using b by (rule list_all2_lengthD)
  have "players s' = map (\<lambda>pl. pl\<lparr>score := startingScore s, history := []\<rparr>) (players s)"
    using st ResetGame by (auto simp: resetGame_def)
  then show ?thesis
    using n l ResetGame by (simp add: list_all2_conv_all_nth hasBase_def)
next
  case (SetStartingScore n)
  then show ?thesis using b st by (auto simp: setStartingScore_def)
next
  case ToggleRunning
  then show ?thesis using b st by (auto simp: toggleRunning_def)
next
  case NextTurn
  then show ?thesis using b st by (auto simp: nextTurn_def)
next
  case (BoardClick e el)
  then have "onBoardClick E e el s = Inr s'" using st by simp
  from hit_bases [OF b onBoardClick_cases [OF this] s s'] show ?thesis
    using BoardClick by simp
next
  case ManualHit
  then have "applyManualHit E s = Inr s'" using st by simp
  from hit_bases [OF b applyManualHit_cases [OF this] s s'] show ?thesis
    using ManualHit by simp
next
  case (RecordHit i lbl m raw)
  then have "recordHit i lbl m raw s = Inr s'" using st by simp
  from recordHit_bases [OF b this s s'] show ?thesis using RecordHit by simp
next
  case (UndoLast i)
  then have "undoLast i s = Inr s'" using st by simp
  from undoLast_bases [OF b this s] show ?thesis using UndoLast by simp
next
  case (SelectActive i)
  then show ?thesis using b st by (auto simp: setActivePlayerIndex_def)
next
  case (SetManualSector v)
  then show ?thesis using b st by (auto simp: setManualSector_def)
next
  case (SetManualMult v)
  then show ?thesis using b st by (auto simp: setManualMult_def)
next
  case (SetShowAddPlayer v)
  then show ?thesis using b st by (auto simp: setShowAddPlayer_def)
next
  case (SetNewPlayerName v)
  then show ?thesis using b st by (auto simp: setNewPlayerName_def)
next
  case (SetShowDebug v)
  then show ?thesis using b st by (auto simp: setShowDebug_def)
qed

lemma safeRun_head: "safeRun E cs s \<Longrightarrow> safeState s"
  by (cases cs) simp_all

lemma run_bases:
  "list_all2 hasBase bs (players s) \<Longrightarrow> run E cs s = Inr s' \<Longrightarrow> safeRun E cs s
     \<Longrightarrow> list_all2 hasBase (bases E cs s bs) (players s')"
proof (induction cs arbitrary: s bs)
  case Nil
  then show ?case by simp
next
  case (Cons c cs)
  from Cons.prems(2) obtain s1 where s1: "step E c s = Inr s1" and r: "run E cs s1 = Inr s'"
    by (auto simp: andThen_Inr)
  have safe: "safeState s" "safeRun E cs s1" using Cons.prems(3) s1 by simp_all
  have "safeState s1" using safe(2) by (rule safeRun_head)
  with Cons.prems(1) s1 safe(1) have "list_all2 hasBase (basesStep c s bs) (players s1)"
    by (rule step_bases)
  then have "list_all2 hasBase (bases E cs s1 (basesStep c s bs)) (players s')"
    using r safe(2) by (rule Cons.IH)
  then show ?case by (simp add: s1)
qed

text \<open>
  Claim C1, as amended. Take any sequence of user actions from the initial
  state in which the starting scores, the scores and the deltas stay safe, so
  that no addition or subtraction of a score rounds. In the state reached,
  each player's score is the sum of the deltas of the player's history and the
  starting score that was configured when the player was added or, after that,
  when the game was last reset. So the equation with the configured starting
  score holds in that state if and only if that starting score is, for every
  player, the one now configured: always when \<open>setStartingScore\<close> has not
  changed it since, as after \<open>resetGame\<close> or before the first \<open>addPlayer\<close>.
\<close>

theorem score_history_consistency:
  assumes "run E cs initialState = Inr s" and "safeRun E cs initialState"
  shows "list_all2 hasBase (bases E cs initialState []) (players s) \<and>
         (scoreConsistent s \<longleftrightarrow>
            list_all (\<lambda>b. b = startingScore s) (bases E cs initialState []))"
proof -
  have "list_all2 hasBase [] (players initialState)" by (simp add: initialState_def)
  then have b: "list_all2 hasBase (bases E cs initialState []) (players s)"
    using assms by (rule run_bases)
  show ?thesis
    using b consistent_iff_bases [OF b, of "startingScore s"]
    by (simp add: scoreConsistent_def)
qed

text \<open>
  The claim as stated fails: after \<open>addPlayer\<close> at starting score 501 and
  \<open>setStartingScore 301\<close> the player's score is still 501, with an empty
  history.
\<close>

theorem score_history_counterexample:
  "run binary64Engine [AddPlayer ''Ann'', SetStartingScore (Num 301)] initialState =
     Inr (setStartingScore (Num 301) (addPlayer ''Ann'' initialState)) \<and>
   startingScore (setStartingScore (Num 301) (addPlayer ''Ann'' initialState)) = Num 301 \<and>
   map score (players (setStartingScore (Num 301) (addPlayer ''Ann'' initialState))) = [Num 501] \<and>
   map history (players (setStartingScore (Num 301) (addPlayer ''Ann'' initialState))) = [[]] \<and>
   \<not> scoreConsistent (setStartingScore (Num 301) (addPlayer ''Ann'' initialState))"
  by (simp add: andThen_def setStartingScore_def addPlayer_def initialState_def
      scoreConsistent_def hasBase_def)

theorem score_history_consistency_witness:
  "(\<exists>s. run binary64Engine exampleGame initialState = Inr s \<and>
        safeRun binary64Engine exampleGame initialState \<and>
        bases binary64Engine exampleGame initialState [] = [Num 701, Num 701] \<and>
        startingScore s = Num 701 \<and> map score (players s) = [Num 701, Num 676] \<and>
        scoreConsistent s) \<and>
   (\<exists>s. run binary64Engine mixedGame initialState = Inr s \<and>
        safeRun binary64Engine mixedGame initialState \<and>
        bases binary64Engine mixedGame initialState [] = [Num 501, Num 301] \<and>
        startingScore s = Num 301 \<and> map score (players s) = [Num 501, Num 281] \<and>
        list_all2 hasBase [Num 501, Num 301] (players s) \<and> \<not> scoreConsistent s)"
proof -
  note ev = andThen_def addPlayer_def recordHit_def undoLast_def jsSub_def
    nextTurn_def applyManualHit_def resetGame_def setLastHit_def setStartingScore_def
    initialState_def String_1 String_2 String_20 js_rem_def Let_def roundNum_numeral
    safeState_def safeInt_numeral safeInt_neg_numeral
  let ?s1 = "initialState\<lparr>startingScore := Num 701, nextId := 3,
               players := [\<lparr>player_id = ''1'', name = ''Ann'', score = Num 701, history = []\<rparr>,
                 \<lparr>player_id = ''2'', name = ''Bob'', score = Num 676,
                  history = [\<lparr>desc = ''x'', delta = Num (- 25)\<rparr>]\<rparr>]\<rparr>"
  let ?s2 = "initialState\<lparr>startingScore := Num 301, nextId := 3,
               players := [\<lparr>player_id = ''1'', name = ''Ann'', score = Num 501, history = []\<rparr>,
                 \<lparr>player_id = ''2'', name = ''Bob'', score = Num 281,
                  history = [\<lparr>desc = ''1'' @ timesSign @ ''20'', delta = Num (- 20)\<rparr>]\<rparr>]\<rparr>"
  have r1: "run binary64Engine exampleGame initialState = Inr ?s1"
    by (simp add: exampleGame_def ev)
  have f1: "safeRun binary64Engine exampleGame initialState"
    by (simp add: exampleGame_def ev)
  have b1: "bases binary64Engine exampleGame initialState [] = [Num 701, Num 701]"
    by (simp add: exampleGame_def ev)
  have r2: "run binary64Engine mixedGame initialState = Inr ?s2"
    by (simp add: mixedGame_def ev)
  have f2: "safeRun binary64Engine mixedGame initialState"
    by (simp add: mixedGame_def ev)
  have b2: "bases binary64Engine mixedGame initialState [] = [Num 501, Num 301]"
    by (simp add: mixedGame_def ev)
  have c1: "scoreConsistent ?s1"
    using score_history_consistency [OF r1 f1] unfolding b1 by simp
  have c2: "list_all2 hasBase [Num 501, Num 301] (players ?s2) \<and> \<not> scoreConsistent ?s2"
    using score_history_consistency [OF r2 f2] unfolding b2 by simp
  show ?thesis
    using r1 f1 b1 c1 r2 f2 b2 c2 by simp
qed

section \<open>Player index out of range\<close>

text \<open>
  Claim C3, as amended. \<open>recordHit\<close> and \<open>undoLast\<close> do not check the player
  index: for an index outside the player list both throw a TypeError and give
  no new state. The guard is in the callers: with an empty player list
  \<open>onBoardClick\<close> and \<open>applyManualHit\<close> return at once and leave the state
  unchanged.
\<close>

theorem out_of_range_index:
  "(players s = [] \<longrightarrow> onBoardClick E e el s = Inr s \<and> applyManualHit E s = Inr s) \<and>
   (\<not> (0 \<le> i \<and> i < int (length (players s))) \<longrightarrow>
      recordHit i lbl m raw s = Inl TypeError \<and> undoLast i s = Inl TypeError)"
  by (simp add: onBoardClick_def applyManualHit_def recordHit_invalid undoLast_invalid)

text \<open>
  The claim as stated fails: on the initial state, whose player list is empty,
  \<open>recordHit\<close> and \<open>undoLast\<close> at index 0 throw instead of returning the state.
\<close>

theorem out_of_range_counterexample:
  "recordHit 0 (LNum 20) 3 (Num 60) initialState = Inl TypeError \<and>
   recordHit 0 (LNum 20) 3 (Num 60) initialState \<noteq> Inr initialState \<and>
   undoLast 0 initialState = Inl TypeError \<and>
   undoLast 0 initialState \<noteq> Inr initialState"
  by (simp add: recordHit_def undoLast_def initialState_def)

theorem out_of_range_index_witness:
  "players initialState = [] \<and> \<not> (0 \<le> (2::int) \<and> 2 < int (length (players twoPlayers))) \<and>
   onBoardClick binary64Engine \<lparr>clientX = 10, clientY = 10\<rparr> None initialState = Inr initialState \<and>
   applyManualHit binary64Engine initialState = Inr initialState \<and>
   recordHit 2 (LNum 20) 3 (Num 60) twoPlayers = Inl TypeError \<and>
   undoLast 2 twoPlayers = Inl TypeError"
  using out_of_range_index [of initialState binary64Engine "\<lparr>clientX = 10, clientY = 10\<rparr>" None 2
      "LNum 20" 3 "Num 60"]
    out_of_range_index [of twoPlayers binary64Engine "\<lparr>clientX = 10, clientY = 10\<rparr>" None 2
      "LNum 20" 3 "Num 60"]
  by (simp add: initialState_def twoPlayers_eq)

section \<open>Removing a player\<close>

text \<open>
  The ids are the decimal strings of the successive values of \<open>nextId\<close>; the
  decimal string of a number determines the number, so in every state reached
  from the initial one the ids of the players are distinct.
\<close>

lemma digit_char_inj: "a < 10 \<Longrightarrow> b < 10 \<Longrightarrow> digit_char a = digit_char b \<Longrightarrow> a = b"
proof -
  assume a: "a < 10" and b: "b < 10" and e: "digit_char a = digit_char b"
  from e have "(of_char (char_of (48 + a)) :: nat) = of_char (char_of (48 + b))"
    by (simp add: digit_char_def)
  then have "(48 + a) mod 256 = (48 + b) mod 256"
    by (simp only: of_char_of)
  then show "a = b" using a b by simp
qed

lemma string_of_nat_nonempty: "string_of_nat n \<noteq> []"
  by (subst string_of_nat.simps) simp

lemma string_of_nat_small: "n < 10 \<Longrightarrow> string_of_nat n = [digit_char n]"
  by (subst string_of_nat.simps) simp

lemma string_of_nat_large:
  "\<not> n < 10 \<Longrightarrow> string_of_nat n = string_of_nat (n div 10) @ [digit_char (n mod 10)]"
  by (subst string_of_nat.simps) simp

lemma string_of_nat_inj: "string_of_nat m = string_of_nat n \<Longrightarrow> m = n"
proof (induction m arbitrary: n rule: string_of_nat.induct)
  case (1 m)
  show ?case
  proof (cases "m < 10")
    case True
    note m = this
    show ?thesis
    proof (cases "n < 10")
      case True
      then show ?thesis
        using "1.prems" m by (simp add: string_of_nat_small digit_char_inj)
    next
      case False
      then show ?thesis
        using "1.prems" m string_of_nat_nonempty [of "n div 10"]
        by (simp add: string_of_nat_small string_of_nat_large)
    qed
  next
    case False
    note m = this
    show ?thesis
    proof (cases "n < 10")
      case True
      then show ?thesis
        using "1.prems" m string_of_nat_nonempty [of "m div 10"]
        by (simp add: string_of_nat_small string_of_nat_large)
    next
      case False
      then have e: "string_of_nat (m div 10) = string_of_nat (n div 10)"
        and d: "digit_char (m mod 10) = digit_char (n mod 10)"
        using "1.prems" m by (simp_all add: string_of_nat_large)
      have "m div 10 = n div 10" using "1.IH" [OF m e] .
      moreover have "m mod 10 = n mod 10" using d by (intro digit_char_inj) simp_all
      ultimately show ?thesis by (metis div_mult_mod_eq)
    qed
  qed
qed

lemma String_inj: "0 \<le> i \<Longrightarrow> 0 \<le> j \<Longrightarrow> String i = String j \<Longrightarrow> i = j"
  using string_of_nat_inj [of "nat i" "nat j"] by (simp add: String_def)

lemma idsFresh_alt:
  "idsFresh s \<longleftrightarrow>
     0 < nextId s \<and> set (map player_id (players s)) \<subseteq> String ` {1..<nextId s} \<and>
     distinct (map player_id (players s))"
  by (auto simp: idsFresh_def list_all_iff)

lemma idsFresh_same:
  assumes "idsFresh s" and "nextId s' = nextId s"
    and "map player_id (players s') = map player_id (players s)"
  shows "idsFresh s'"
  using assms unfolding idsFresh_alt by simp

lemma recordHit_ids:
  assumes "recordHit i lbl m raw s = Inr s'"
  shows "nextId s' = nextId s \<and> map player_id (players s') = map player_id (players s)"
proof (cases "0 \<le> i \<and> i < int (length (players s))")
  case False
  then show ?thesis using assms by (simp add: recordHit_invalid)
next
  case True
  then have "nat i < length (players s)" by linarith
  then show ?thesis
    using True assms by (auto simp: recordHit_valid map_update list_update_same_conv)
qed

lemma undoLast_ids:
  assumes "undoLast i s = Inr s'"
  shows "nextId s' = nextId s \<and> map player_id (players s') = map player_id (players s)"
proof (cases "0 \<le> i \<and> i < int (length (players s))")
  case False
  then show ?thesis using assms by (simp add: undoLast_invalid)
next
  case True
  then have "nat i < length (players s)" by linarith
  then show ?thesis
    using True assms
    by (auto simp: undoLast_valid map_update list_update_same_conv split: list.splits)
qed

lemma addPlayer_idsFresh:
  assumes "idsFresh s"
  shows "idsFresh (addPlayer nm s)"
proof -
  have n: "0 < nextId s"
    and sub: "set (map player_id (players s)) \<subseteq> String ` {1..<nextId s}"
    and d: "distinct (map player_id (players s))"
    using assms by (simp_all add: idsFresh_alt)
  have new: "String (nextId s) \<notin> set (map player_id (players s))"
  proof
    assume "String (nextId s) \<in> set (map player_id (players s))"
    with sub have "String (nextId s) \<in> String ` {1..<nextId s}" by (rule subsetD)
    then obtain j where j: "j \<in> {1..<nextId s}" "String (nextId s) = String j"
      by (rule imageE)
    then have "nextId s = j" using n by (intro String_inj) simp_all
    with j(1) show False by simp
  qed
  have "String ` {1..<nextId s} \<subseteq> String ` {1..<nextId s + 1}"
    by (intro image_mono) auto
  moreover have "String (nextId s) \<in> String ` {1..<nextId s + 1}"
    using n by (intro imageI) simp
  ultimately show ?thesis
    using n sub d new unfolding idsFresh_alt
    by (auto simp: addPlayer_def Let_def)
qed

lemma hit_ids:
  assumes "s' = s \<or> (\<exists>lbl m raw h s1. recordHit a lbl m raw s = Inr s1 \<and>
                       s' = setLastHit (Some h) s1)"
  shows "nextId s' = nextId s \<and> map player_id (players s') = map player_id (players s)"
  using assms
proof (elim disjE exE conjE)
  assume "s' = s"
  then show ?thesis by simp
next
  fix lbl m raw h s1
  assume r: "recordHit a lbl m raw s = Inr s1" and s': "s' = setLastHit (Some h) s1"
  from recordHit_ids [OF r] show ?thesis
    unfolding s' by (simp add: setLastHit_def)
qed

lemma removePlayer_idsFresh:
  assumes "idsFresh s"
  shows "idsFresh (removePlayer i s)"
proof -
  have n: "0 < nextId s"
    and sub: "set (map player_id (players s)) \<subseteq> String ` {1..<nextId s}"
    and d: "distinct (map player_id (players s))"
    using assms by (simp_all add: idsFresh_alt)
  have "set (map player_id (filter (\<lambda>p. player_id p \<noteq> i) (players s)))
          \<subseteq> set (map player_id (players s))"
    by auto
  then have "set (map player_id (filter (\<lambda>p. player_id p \<noteq> i) (players s)))
          \<subseteq> String ` {1..<nextId s}"
    using sub by (rule subset_trans)
  moreover have "distinct (map player_id (filter (\<lambda>p. player_id p \<noteq> i) (players s)))"
    using d by (rule distinct_map_filter)
  ultimately show ?thesis
    using n unfolding idsFresh_alt by (simp add: removePlayer_def)
qed

lemma step_idsFresh:
  assumes "idsFresh s" and "step E c s = Inr s'"
  shows "idsFresh s'"
proof (cases c)
  case (AddPlayer nm)
  then have "s' = addPlayer nm s" using assms(2) by simp
  then show ?thesis using assms(1) by (simp add: addPlayer_idsFresh)
next
  case (RemovePlayer i)
  then have "s' = removePlayer i s" using assms(2) by simp
  then show ?thesis using assms(1) by (simp add: removePlayer_idsFresh)
next
  case ResetGame
  then have s': "s' = resetGame s" using assms(2) by simp
  show ?thesis
    using assms(1) unfolding s'
    by (rule idsFresh_same) (simp_all add: resetGame_def comp_def)
next
  case (SetStartingScore n)
  then have s': "s' = setStartingScore n s" using assms(2) by simp
  show ?thesis
    using assms(1) unfolding s' by (rule idsFresh_same) (simp_all add: setStartingScore_def)
next
  case ToggleRunning
  then have s': "s' = toggleRunning s" using assms(2) by simp
  show ?thesis
    using assms(1) unfolding s' by (rule idsFresh_same) (simp_all add: toggleRunning_def)
next
  case NextTurn
  then have s': "s' = nextTurn s" using assms(2) by simp
  show ?thesis
    using assms(1) unfolding s' by (rule idsFresh_same) (simp_all add: nextTurn_def)
next
  case (BoardClick e el)
  then have "onBoardClick E e el s = Inr s'" using assms(2) by simp
  from hit_ids [OF onBoardClick_cases [OF this]]
  have "nextId s' = nextId s" and "map player_id (players s') = map player_id (players s)"
    by simp_all
  with assms(1) show ?thesis by (rule idsFresh_same)
next
  case ManualHit
  then have "applyManualHit E s = Inr s'" using assms(2) by simp
  from hit_ids [OF applyManualHit_cases [OF this]]
  have "nextId s' = nextId s" and "map player_id (players s') = map player_id (players s)"
    by simp_all
  with assms(1) show ?thesis by (rule idsFresh_same)
next
  case (RecordHit i lbl m raw)
  then have "recordHit i lbl m raw s = Inr s'" using assms(2) by simp
  from recordHit_ids [OF this]
  have "nextId s' = nextId s" and "map player_id (players s') = map player_id (players s)"
    by simp_all
  with assms(1) show ?thesis by (rule idsFresh_same)
next
  case (UndoLast i)
  then have "undoLast i s = Inr s'" using assms(2) by simp
  from undoLast_ids [OF this]
  have "nextId s' = nextId s" and "map player_id (players s') = map player_id (players s)"
    by simp_all
  with assms(1) show ?thesis by (rule idsFresh_same)
next
  case (SelectActive i)
  then have s': "s' = setActivePlayerIndex i s" using assms(2) by simp
  show ?thesis
    using assms(1) unfolding s' by (rule idsFresh_same) (simp_all add: setActivePlayerIndex_def)
next
  case (SetManualSector v)
  then have s': "s' = setManualSector v s" using assms(2) by simp
  show ?thesis
    using assms(1) unfolding s' by (rule idsFresh_same) (simp_all add: setManualSector_def)
next
  case (SetManualMult v)
  then have s': "s' = setManualMult v s" using assms(2) by simp
  show ?thesis
    using assms(1) unfolding s' by (rule idsFresh_same) (simp_all add: setManualMult_def)
next
  case (SetShowAddPlayer v)
  then have s': "s' = setShowAddPlayer v s" using assms(2) by simp
  show ?thesis
    using assms(1) unfolding s' by (rule idsFresh_same) (simp_all add: setShowAddPlayer_def)
next
  case (SetNewPlayerName v)
  then have s': "s' = setNewPlayerName v s" using assms(2) by simp
  show ?thesis
    using assms(1) unfolding s' by (rule idsFresh_same) (simp_all add: setNewPlayerName_def)
next
  case (SetShowDebug v)
  then have s': "s' = setShowDebug v s" using assms(2) by simp
  show ?thesis
    using assms(1) unfolding s' by (rule idsFresh_same) (simp_all add: setShowDebug_def)
qed

lemma run_idsFresh: "idsFresh s \<Longrightarrow> run E cs s = Inr s' \<Longrightarrow> idsFresh s'"
proof (induction cs arbitrary: s)
  case Nil
  then show ?case by simp
next
  case (Cons c cs)
  from Cons.prems(2) obtain s1 where s1: "step E c s = Inr s1" and r: "run E cs s1 = Inr s'"
    by (auto simp: andThen_Inr)
  have "idsFresh s1" using Cons.prems(1) s1 by (rule step_idsFresh)
  then show ?case using r by (rule Cons.IH)
qed

lemma reachable_ids_distinct:
  assumes "run E cs initialState = Inr s"
  shows "distinct (map player_id (players s))"
proof -
  have "idsFresh initialState" by (simp add: idsFresh_def initialState_def)
  then have "idsFresh s" using assms by (rule run_idsFresh)
  then show ?thesis by (simp add: idsFresh_def)
qed

lemma filter_distinct_nth:
  assumes "distinct (map f xs)" and "k < length xs"
  shows "filter (\<lambda>p. f p \<noteq> f (xs ! k)) xs = take k xs @ drop (Suc k) xs"
proof -
  have xs: "xs = take k xs @ xs ! k # drop (Suc k) xs"
    using assms(2) by (rule id_take_nth_drop)
  have d: "distinct (map f (take k xs) @ f (xs ! k) # map f (drop (Suc k) xs))"
    using assms(1) xs by (metis list.simps(9) map_append)
  have a: "\<forall>p \<in> set (take k xs). f p \<noteq> f (xs ! k)"
    using d by (auto simp: image_iff)
  have b: "\<forall>p \<in> set (drop (Suc k) xs). f p \<noteq> f (xs ! k)"
    using d by (auto simp: image_iff)
  have "filter (\<lambda>p. f p \<noteq> f (xs ! k)) (take k xs @ xs ! k # drop (Suc k) xs) =
          take k xs @ drop (Suc k) xs"
    using a b by simp
  with xs show ?thesis by simp
qed

text \<open>
  Claim C7, as amended. \<open>removePlayer i\<close> keeps, in order, the players whose id
  differs from \<open>i\<close> and sets \<open>activePlayerIndex\<close> to 0 whether or not a player
  has the id \<open>i\<close>; the other fields are unchanged. When no player has the id
  the player list is unchanged (and \<open>activePlayerIndex\<close> is still set to 0);
  when the ids are distinct, as they are in every state reached from the
  initial one, and the player at position \<open>k\<close> has the id, exactly that player
  is deleted.
\<close>

theorem removePlayer_effect:
  "players (removePlayer i s) = filter (\<lambda>p. player_id p \<noteq> i) (players s) \<and>
   activePlayerIndex (removePlayer i s) = 0 \<and>
   startingScore (removePlayer i s) = startingScore s \<and>
   isRunning (removePlayer i s) = isRunning s \<and>
   nextId (removePlayer i s) = nextId s \<and>
   lastHit (removePlayer i s) = lastHit s \<and>
   (list_all (\<lambda>p. player_id p \<noteq> i) (players s) \<longrightarrow> players (removePlayer i s) = players s) \<and>
   (\<forall>k cs E. k < length (players s) \<and> player_id (players s ! k) = i \<and>
        (distinct (map player_id (players s)) \<or> run E cs initialState = Inr s) \<longrightarrow>
        players (removePlayer i s) = take k (players s) @ drop (Suc k) (players s))"
  using filter_distinct_nth [of player_id "players s"] reachable_ids_distinct [of _ _ s]
  by (auto simp: removePlayer_def list_all_iff)

text \<open>
  The claim as stated fails: with two players and \<open>activePlayerIndex = 1\<close>,
  removing the id \<open>99\<close>, which no player has, sets \<open>activePlayerIndex\<close> to 0.
\<close>

theorem removePlayer_counterexample:
  "list_all (\<lambda>p. player_id p \<noteq> ''99'') (players (nextTurn twoPlayers)) \<and>
   activePlayerIndex (nextTurn twoPlayers) = 1 \<and>
   activePlayerIndex (removePlayer ''99'' (nextTurn twoPlayers)) = 0 \<and>
   removePlayer ''99'' (nextTurn twoPlayers) \<noteq> nextTurn twoPlayers"
  by (simp add: removePlayer_def nextTurn_def twoPlayers_eq initialState_def js_rem_def)

theorem removePlayer_effect_witness:
  "run binary64Engine [AddPlayer ''Ann'', AddPlayer ''Bob''] initialState = Inr twoPlayers \<and>
   list_all (\<lambda>p. player_id p \<noteq> ''99'') (players twoPlayers) \<and>
   (0::nat) < length (players twoPlayers) \<and> player_id (players twoPlayers ! 0) = ''1'' \<and>
   distinct (map player_id (players twoPlayers)) \<and>
   players (removePlayer ''99'' twoPlayers) = players twoPlayers \<and>
   players (removePlayer ''1'' twoPlayers) = [\<lparr>player_id = ''2'', name = ''Bob'', score = Num 501, history = []\<rparr>] \<and>
   activePlayerIndex (removePlayer ''1'' (nextTurn twoPlayers)) = 0"
proof -
  have r: "run binary64Engine [AddPlayer ''Ann'', AddPlayer ''Bob''] initialState = Inr twoPlayers"
    by (simp add: andThen_def twoPlayers_def)
  show ?thesis
    using removePlayer_effect [of "''99''" twoPlayers] removePlayer_effect [of "''1''" twoPlayers]
      removePlayer_effect [of "''1''" "nextTurn twoPlayers"]
    unfolding r by (simp add: twoPlayers_eq initialState_def)
qed

section \<open>Frame of recordHit\<close>

text \<open>
  Claim C8. For a valid player index \<open>i\<close>, \<open>recordHit\<close> succeeds and changes
  only the score and the history of player \<open>i\<close>: the other players, the id and
  the name of player \<open>i\<close>, \<open>activePlayerIndex\<close>, \<open>startingScore\<close>, \<open>isRunning\<close>,
  \<open>nextId\<close> and the remaining fields are those of the state before. The new
  score is the binary64 difference of the score and the raw score, and the
  history gets one more event, whose delta is the negated raw score.
\<close>

theorem recordHit_frame:
  assumes "0 \<le> i" and "i < int (length (players s))"
  shows "\<exists>s' d. recordHit i lbl m raw s = Inr s' \<and>
           length (players s') = length (players s) \<and>
           (\<forall>j < length (players s). j \<noteq> nat i \<longrightarrow> players s' ! j = players s ! j) \<and>
           player_id (players s' ! nat i) = player_id (players s ! nat i) \<and>
           name (players s' ! nat i) = name (players s ! nat i) \<and>
           score (players s' ! nat i) = jsAdd (score (players s ! nat i)) (jsNeg raw) \<and>
           history (players s' ! nat i) =
             \<lparr>desc = d, delta = jsNeg raw\<rparr> # history (players s ! nat i) \<and>
           activePlayerIndex s' = activePlayerIndex s \<and>
           startingScore s' = startingScore s \<and>
           isRunning s' = isRunning s \<and>
           nextId s' = nextId s \<and>
           lastHit s' = lastHit s \<and>
           showAddPlayer s' = showAddPlayer s \<and>
           newPlayerName s' = newPlayerName s \<and>
           showDebug s' = showDebug s \<and>
           manualSector s' = manualSector s \<and>
           manualMult s' = manualMult s"
  using assms by (simp add: recordHit_valid)

theorem recordHit_frame_witness:
  "(0::int) \<le> 1 \<and> 1 < int (length (players twoPlayers)) \<and>
   (\<exists>s'. recordHit 1 (LNum 20) 3 (Num 60) twoPlayers = Inr s' \<and>
         players s' ! 0 = players twoPlayers ! 0 \<and>
         score (players s' ! 1) = Num 441 \<and>
         name (players s' ! 1) = ''Bob'' \<and>
         activePlayerIndex s' = activePlayerIndex twoPlayers \<and>
         nextId s' = nextId twoPlayers)"
  using recordHit_frame [of 1 twoPlayers "LNum 20" 3 "Num 60"]
  by (auto simp: twoPlayers_eq initialState_def roundNum_numeral)

section \<open>Turn cycling\<close>

lemma nextTurn_players: "players ((nextTurn ^^ k) s) = players s"
  by (induction k) (simp_all add: nextTurn_def)

lemma nextTurn_iter:
  assumes "players s \<noteq> []" and "0 \<le> activePlayerIndex s"
  shows "activePlayerIndex ((nextTurn ^^ k) s) =
           (if k = 0 then activePlayerIndex s
            else (activePlayerIndex s + int k) mod int (length (players s)))"
proof (induction k)
  case 0
  show ?case by simp
next
  case (Suc k)
  let ?n = "int (length (players s))"
  have n: "0 < ?n" using assms by simp
  have nn: "0 \<le> activePlayerIndex ((nextTurn ^^ k) s)"
    using Suc assms n by (simp split: if_splits)
  have "activePlayerIndex ((nextTurn ^^ Suc k) s) =
          (activePlayerIndex ((nextTurn ^^ k) s) + 1) mod ?n"
    using n nn assms by (simp add: nextTurn_def nextTurn_players js_rem_nonneg)
  also have "\<dots> = (activePlayerIndex s + int (Suc k)) mod ?n"
    using Suc by (simp add: mod_simps algebra_simps split: if_splits)
  finally show ?case by simp
qed

text \<open>
  Claim C9. With at least one player and \<open>activePlayerIndex\<close> inside the player
  list, one \<open>nextTurn\<close> maps the index \<open>a\<close> to \<open>(a + 1) mod playerCount\<close> and
  leaves the players alone, and \<open>playerCount\<close> applications of \<open>nextTurn\<close> bring
  the index back to \<open>a\<close>.
\<close>

theorem nextTurn_cycle:
  assumes "players s \<noteq> []"
    and "0 \<le> activePlayerIndex s"
    and "activePlayerIndex s < int (length (players s))"
  shows "activePlayerIndex (nextTurn s) = (activePlayerIndex s + 1) mod int (length (players s)) \<and>
         players (nextTurn s) = players s \<and>
         activePlayerIndex ((nextTurn ^^ length (players s)) s) = activePlayerIndex s"
proof -
  have "activePlayerIndex (nextTurn s) = (activePlayerIndex s + 1) mod int (length (players s))"
    using assms by (simp add: nextTurn_def js_rem_nonneg)
  moreover have "players (nextTurn s) = players s"
    by (simp add: nextTurn_def)
  moreover have "activePlayerIndex ((nextTurn ^^ length (players s)) s) = activePlayerIndex s"
    using assms nextTurn_iter [OF assms(1,2), of "length (players s)"] by simp
  ultimately show ?thesis by simp
qed

theorem nextTurn_cycle_witness:
  "players (nextTurn twoPlayers) \<noteq> [] \<and> 0 \<le> activePlayerIndex (nextTurn twoPlayers) \<and>
   activePlayerIndex (nextTurn twoPlayers) < int (length (players (nextTurn twoPlayers))) \<and>
   activePlayerIndex (nextTurn (nextTurn twoPlayers)) = 0 \<and>
   activePlayerIndex ((nextTurn ^^ 2) (nextTurn twoPlayers)) = 1"
  using nextTurn_cycle [of "nextTurn twoPlayers"]
  by (simp add: nextTurn_def twoPlayers_eq initialState_def js_rem_def numeral_2_eq_2)

section \<open>Facts about the hit geometry\<close>

lemma Math_atan2_bounds: "- pi < Math_atan2 y x \<and> Math_atan2 y x \<le> pi"
proof -
  have l: "- (pi / 2) < arctan (y / x)" by (rule arctan_lbound)
  have u: "arctan (y / x) < pi / 2" by (rule arctan_ubound)
  have p: "0 < pi" by (rule pi_gt_zero)
  consider "0 < x" | "x < 0" "0 \<le> y" | "x < 0" "y < 0" | "x = 0"
    by linarith
  then show ?thesis
  proof cases
    case 1
    then have "Math_atan2 y x = arctan (y / x)" by (simp add: Math_atan2_def)
    then show ?thesis using l u p by linarith
  next
    case 2
    then have "y / x \<le> 0" by (simp add: divide_nonneg_neg)
    then have a: "arctan (y / x) \<le> 0" by simp
    have "Math_atan2 y x = arctan (y / x) + pi" using 2 by (simp add: Math_atan2_def)
    then show ?thesis using a l p by linarith
  next
    case 3
    then have "0 < y / x" by (simp add: divide_neg_neg)
    then have a: "0 < arctan (y / x)" by simp
    have "Math_atan2 y x = arctan (y / x) - pi" using 3 by (simp add: Math_atan2_def)
    then show ?thesis using a u p by linarith
  next
    case 4
    then have "Math_atan2 y x = pi / 2 \<or> Math_atan2 y x = - (pi / 2) \<or> Math_atan2 y x = 0"
      by (simp add: Math_atan2_def)
    then show ?thesis using p by linarith
  qed
qed

lemma js_fmod_nonneg:
  assumes "0 \<le> a" and "0 < b"
  shows "js_fmod a b = a - b * of_int \<lfloor>a / b\<rfloor>"
    and "0 \<le> js_fmod a b" and "js_fmod a b < b"
proof -
  have q: "0 \<le> a / b" using assms by simp
  then show e: "js_fmod a b = a - b * of_int \<lfloor>a / b\<rfloor>"
    by (simp add: js_fmod_def js_trunc_def)
  have "of_int \<lfloor>a / b\<rfloor> \<le> a / b" by (rule of_int_floor_le)
  then have "of_int \<lfloor>a / b\<rfloor> * b \<le> a"
    using assms(2) by (simp only: pos_le_divide_eq)
  then have "b * of_int \<lfloor>a / b\<rfloor> \<le> a"
    by (simp only: mult.commute)
  then show "0 \<le> js_fmod a b" using e by simp
  have "a / b < of_int \<lfloor>a / b\<rfloor> + 1" by linarith
  then have "a < (of_int \<lfloor>a / b\<rfloor> + 1) * b"
    using assms(2) by (simp only: pos_divide_less_eq)
  then show "js_fmod a b < b" using e by (simp add: algebra_simps)
qed

lemma exact_ops:
  "fadd exactEngine a b = a + b" "fsub exactEngine a b = a - b"
  "fmul exactEngine a b = a * b" "fdiv exactEngine a b = a / b"
  "e_hypot exactEngine = Math_hypot" "e_atan2 exactEngine = Math_atan2"
  "e_PI exactEngine = pi" "e_rnd exactEngine c = c"
  by (simp_all add: exactEngine_def fadd_def fsub_def fmul_def fdiv_def)

lemma engineOK_exactEngine: "engineOK exactEngine"
proof -
  have "\<bar>Math_atan2 y x\<bar> \<le> pi + 1" for y x
    using Math_atan2_bounds [of y x] by linarith
  moreover have "2 \<le> pi" by (rule pi_ge_two)
  moreover have "pi \<le> 4" using pi_less_4 by simp
  ultimately show ?thesis by (simp add: engineOK_def exactEngine_def)
qed

lemma fl64_half:
  assumes "0 \<le> k" and "k \<le> 40"
  shows "fl64 (of_int k / 2) = of_int k / 2"
proof (rule fl64_dyadic [where m = k and j = "- 1"])
  show "real_of_int k / 2 = of_int k * 2 powi (- 1)" by (simp add: power_int_minus)
  show "\<bar>k\<bar> < 2 ^ 53" using assms by simp
  show "- 1074 \<le> (- 1::int)" by simp
qed

lemma fl64_atan2_bound:
  "\<bar>fl64 (Math_atan2 y x)\<bar> \<le> 884279719003555 / 281474976710656 + 1"
proof -
  have "\<bar>Math_atan2 y x\<bar> \<le> pi" using Math_atan2_bounds [of y x] by linarith
  then have m: "\<bar>Math_atan2 y x\<bar> < 4" using pi_less_4 by linarith
  then have "\<bar>Math_atan2 y x\<bar> \<le> 1024" by linarith
  then have "\<bar>fl64 (Math_atan2 y x) - Math_atan2 y x\<bar> \<le> 1 / 8" by (rule fl64_error_small)
  with m show ?thesis by linarith
qed

lemma engineOK_binary64: "engineOK binary64Engine"
  unfolding engineOK_def
proof (intro conjI allI impI)
  fix c :: real
  assume "\<bar>c\<bar> \<le> 1024"
  then show "\<bar>e_rnd binary64Engine c - c\<bar> \<le> 1 / 8"
    unfolding binary64Engine_def engine.select_convs by (rule fl64_error_small)
next
  fix k :: int
  assume "0 \<le> k \<and> k \<le> 40"
  then have "0 \<le> k" and "k \<le> 40" by simp_all
  then show "e_rnd binary64Engine (of_int k / 2) = of_int k / 2"
    unfolding binary64Engine_def engine.select_convs by (rule fl64_half)
next
  fix a b :: real
  assume "0 \<le> a \<and> a \<le> b"
  then have "0 \<le> a" and "a \<le> b" by simp_all
  then show "e_rnd binary64Engine a \<le> e_rnd binary64Engine b"
    unfolding binary64Engine_def engine.select_convs by (rule fl64_mono_nonneg)
next
  show "2 \<le> e_PI binary64Engine" by (simp add: binary64Engine_def)
  show "e_PI binary64Engine \<le> 4" by (simp add: binary64Engine_def)
next
  fix y x :: real
  show "\<bar>e_atan2 binary64Engine y x\<bar> \<le> e_PI binary64Engine + 1"
    unfolding binary64Engine_def engine.select_convs by (rule fl64_atan2_bound)
qed

lemma engineOK_rnd: "engineOK E \<Longrightarrow> \<bar>c\<bar> \<le> 1024 \<Longrightarrow> \<bar>e_rnd E c - c\<bar> \<le> 1 / 8"
  by (simp add: engineOK_def)

lemma engineOK_half:
  "engineOK E \<Longrightarrow> 0 \<le> k \<Longrightarrow> k \<le> 40 \<Longrightarrow> e_rnd E (of_int k / 2) = of_int k / 2"
  by (simp add: engineOK_def)

lemma engineOK_mono: "engineOK E \<Longrightarrow> 0 \<le> a \<Longrightarrow> a \<le> b \<Longrightarrow> e_rnd E a \<le> e_rnd E b"
  by (simp add: engineOK_def)

lemma engineOK_zero: "engineOK E \<Longrightarrow> e_rnd E 0 = 0"
  using engineOK_half [of E 0] by simp

lemma engineOK_PI: "engineOK E \<Longrightarrow> 2 \<le> e_PI E \<and> e_PI E \<le> 4"
  by (simp add: engineOK_def)

lemma engineOK_atan2: "engineOK E \<Longrightarrow> \<bar>e_atan2 E y x\<bar> \<le> e_PI E + 1"
  by (simp add: engineOK_def)

lemma angleSum_nonneg:
  assumes ok: "engineOK E"
  shows "0 \<le> fadd E (fadd E (fdiv E (fmul E (e_atan2 E y x) 180) (e_PI E)) 90) 360"
proof -
  define P where "P = e_PI E"
  define a0 where "a0 = e_atan2 E y x"
  define a1 where "a1 = fmul E a0 180"
  define a2 where "a2 = fdiv E a1 P"
  define a3 where "a3 = fadd E a2 90"
  define a4 where "a4 = fadd E a3 360"
  have P: "2 \<le> P" "P \<le> 4" using engineOK_PI [OF ok] by (simp_all add: P_def)
  have b0: "\<bar>a0\<bar> \<le> P + 1" unfolding a0_def P_def using ok by (rule engineOK_atan2)
  then have m0: "\<bar>a0 * 180\<bar> \<le> 180 * P + 180" by (simp add: abs_mult)
  then have "\<bar>a0 * 180\<bar> \<le> 1024" using P by linarith
  then have "\<bar>a1 - a0 * 180\<bar> \<le> 1 / 8"
    unfolding a1_def fmul_def using ok by (intro engineOK_rnd)
  then have b1: "\<bar>a1\<bar> \<le> 180 * P + 180 + 1 / 8" using m0 by linarith
  have "180 * P + 180 + 1 / 8 \<le> 271 * P" using P by linarith
  then have "\<bar>a1\<bar> \<le> 271 * P" using b1 by linarith
  then have "\<bar>a1\<bar> / P \<le> 271" using P by (simp add: pos_divide_le_eq)
  then have m1: "\<bar>a1 / P\<bar> \<le> 271" using P by simp
  then have "\<bar>a1 / P\<bar> \<le> 1024" by linarith
  then have "\<bar>a2 - a1 / P\<bar> \<le> 1 / 8"
    unfolding a2_def fdiv_def using ok by (intro engineOK_rnd)
  then have b2: "\<bar>a2\<bar> \<le> 272" using m1 by linarith
  then have "\<bar>a2 + 90\<bar> \<le> 1024" by linarith
  then have "\<bar>a3 - (a2 + 90)\<bar> \<le> 1 / 8"
    unfolding a3_def fadd_def using ok by (intro engineOK_rnd)
  then have b3: "- 183 \<le> a3" "a3 \<le> 363" using b2 by linarith+
  then have "\<bar>a3 + 360\<bar> \<le> 1024" by linarith
  then have "\<bar>a4 - (a3 + 360)\<bar> \<le> 1 / 8"
    unfolding a4_def fadd_def using ok by (intro engineOK_rnd)
  then have "0 \<le> a4" using b3 by linarith
  then show ?thesis by (simp only: a4_def a3_def a2_def a1_def a0_def P_def)
qed

lemma sectorIndex_range:
  assumes ok: "engineOK E"
    and aft: "aft = js_fmod (fadd E (fadd E (fdiv E (fmul E (e_atan2 E y x) 180) (e_PI E)) 90) 360) 360"
  shows "0 \<le> aft" and "aft < 360"
    and "0 \<le> Math_round (fdiv E aft 18)" and "Math_round (fdiv E aft 18) \<le> 20"
    and "js_rem (Math_round (fdiv E aft 18)) 20 = Math_round (fdiv E aft 18) mod 20"
proof -
  show lo: "0 \<le> aft" unfolding aft using angleSum_nonneg [OF ok] by (intro js_fmod_nonneg(2)) simp_all
  show hi: "aft < 360" unfolding aft using angleSum_nonneg [OF ok] by (intro js_fmod_nonneg(3)) simp_all
  have "\<bar>aft / 18\<bar> \<le> 1024" using lo hi by simp
  then have "\<bar>fdiv E aft 18 - aft / 18\<bar> \<le> 1 / 8"
    unfolding fdiv_def using ok by (intro engineOK_rnd)
  then have q: "- (1 / 8) \<le> fdiv E aft 18" "fdiv E aft 18 < 20 + 1 / 8"
    using lo hi by linarith+
  have "(0::real) \<le> fdiv E aft 18 + 1 / 2" using q(1) by linarith
  then show r0: "0 \<le> Math_round (fdiv E aft 18)"
    unfolding Math_round_def by (simp only: zero_le_floor of_int_0)
  have "fdiv E aft 18 + 1 / 2 < of_int 21" using q(2) by simp
  then have "\<lfloor>fdiv E aft 18 + 1 / 2\<rfloor> < 21" by (simp only: floor_less_iff)
  then show "Math_round (fdiv E aft 18) \<le> 20" unfolding Math_round_def by simp
  show "js_rem (Math_round (fdiv E aft 18)) 20 = Math_round (fdiv E aft 18) mod 20"
    using r0 by (simp add: js_rem_nonneg)
qed

lemma SECTORS_at_range: "0 \<le> k \<Longrightarrow> k < 20 \<Longrightarrow> SECTORS_at k = Some (SECTORS ! nat k)"
  by (simp add: SECTORS_at_def SECTORS_def)

lemma Math_hypot_nonneg: "0 \<le> Math_hypot x y"
  by (simp add: Math_hypot_def)

lemmas radii_defs =
  SVG_RADIUS_def DOUBLE_OUTER_def DOUBLE_INNER_def TRIPLE_OUTER_def TRIPLE_INNER_def
  OUTER_BULL_R_def INNER_BULL_R_def

lemma makeLastHit_fields:
  "sectorNumber (makeLastHit E d x y sec m raw a af ko) = (case sec of LNum n \<Rightarrow> Some n | LStr t \<Rightarrow> None)"
  "mult (makeLastHit E d x y sec m raw a af ko) = m"
  "rawScore (makeLastHit E d x y sec m raw a af ko) = raw"
  "sectorIndex (makeLastHit E d x y sec m raw a af (Some k)) = k"
  by (simp_all add: makeLastHit_def Let_def)

lemma onBoardClick_innerBull:
  assumes "0 \<le> activePlayerIndex s" and "activePlayerIndex s < int (length (players s))"
    and "x = fsub E (clientX e) (fadd E (rect_left r) (fdiv E (rect_width r) 2))"
    and "y = fsub E (clientY e) (fadd E (rect_top r) (fdiv E (rect_height r) 2))"
    and "Rpx = fdiv E (rect_width r) 2"
    and "d = e_hypot E x y"
    and "d \<le> fmul E Rpx (fdiv E INNER_BULL_R SVG_RADIUS)"
  shows "onBoardClick E e (Some r) s =
           Inr (setLastHit
             (Some (makeLastHit E (nmul E (ndiv E d Rpx) SVG_RADIUS) x y (LNum 50) 1 50
                      None None None))
             (s\<lparr>players := (players s)[nat (activePlayerIndex s) :=
                  (players s ! nat (activePlayerIndex s))
                    \<lparr>score := jsAdd (score (players s ! nat (activePlayerIndex s))) (Num (- 50)),
                     history := \<lparr>desc = innerBullLabel, delta = Num (- 50)\<rparr>
                                  # history (players s ! nat (activePlayerIndex s))\<rparr>]\<rparr>))"
proof -
  have "players s \<noteq> []" using assms(1,2) by auto
  then show ?thesis
    using assms(7) unfolding assms(3,4,5,6) onBoardClick_def Let_def
    by (simp add: recordHit_valid [OF assms(1,2)] andThen_def)
qed

lemma onBoardClick_outerBull:
  assumes "0 \<le> activePlayerIndex s" and "activePlayerIndex s < int (length (players s))"
    and "x = fsub E (clientX e) (fadd E (rect_left r) (fdiv E (rect_width r) 2))"
    and "y = fsub E (clientY e) (fadd E (rect_top r) (fdiv E (rect_height r) 2))"
    and "Rpx = fdiv E (rect_width r) 2"
    and "d = e_hypot E x y"
    and "\<not> d \<le> fmul E Rpx (fdiv E INNER_BULL_R SVG_RADIUS)"
    and "d \<le> fmul E Rpx (fdiv E OUTER_BULL_R SVG_RADIUS)"
  shows "onBoardClick E e (Some r) s =
           Inr (setLastHit
             (Some (makeLastHit E (nmul E (ndiv E d Rpx) SVG_RADIUS) x y (LNum 25) 1 25
                      None None None))
             (s\<lparr>players := (players s)[nat (activePlayerIndex s) :=
                  (players s ! nat (activePlayerIndex s))
                    \<lparr>score := jsAdd (score (players s ! nat (activePlayerIndex s))) (Num (- 25)),
                     history := \<lparr>desc = outerBullLabel, delta = Num (- 25)\<rparr>
                                  # history (players s ! nat (activePlayerIndex s))\<rparr>]\<rparr>))"
proof -
  have "players s \<noteq> []" using assms(1,2) by auto
  then show ?thesis
    using assms(7,8) unfolding assms(3,4,5,6) onBoardClick_def Let_def
    by (simp add: recordHit_valid [OF assms(1,2)] andThen_def)
qed

lemma onBoardClick_sector:
  assumes "engineOK E"
    and "0 \<le> activePlayerIndex s" and "activePlayerIndex s < int (length (players s))"
    and "x = fsub E (clientX e) (fadd E (rect_left r) (fdiv E (rect_width r) 2))"
    and "y = fsub E (clientY e) (fadd E (rect_top r) (fdiv E (rect_height r) 2))"
    and "Rpx = fdiv E (rect_width r) 2"
    and "d = e_hypot E x y"
    and "\<not> d \<le> fmul E Rpx (fdiv E INNER_BULL_R SVG_RADIUS)"
    and "\<not> d \<le> fmul E Rpx (fdiv E OUTER_BULL_R SVG_RADIUS)"
    and "ad = fdiv E (fmul E (e_atan2 E y x) 180) (e_PI E)"
    and "aft = js_fmod (fadd E (fadd E ad 90) 360) 360"
    and "k = js_rem (Math_round (fdiv E aft 18)) 20"
    and "m = (if fmul E Rpx (fdiv E TRIPLE_INNER SVG_RADIUS) \<le> d \<and>
                 d \<le> fmul E Rpx (fdiv E TRIPLE_OUTER SVG_RADIUS) then 3
              else if fmul E Rpx (fdiv E DOUBLE_INNER SVG_RADIUS) \<le> d \<and>
                      d \<le> fmul E Rpx (fdiv E DOUBLE_OUTER SVG_RADIUS) then 2
              else 1)"
  shows "onBoardClick E e (Some r) s =
           Inr (setLastHit
             (Some (makeLastHit E (nmul E (ndiv E d Rpx) SVG_RADIUS) x y (LNum (SECTORS ! nat k)) m
                      (SECTORS ! nat k * m) (Some ad) (Some aft) (Some k)))
             (s\<lparr>players := (players s)[nat (activePlayerIndex s) :=
                  (players s ! nat (activePlayerIndex s))
                    \<lparr>score := jsAdd (score (players s ! nat (activePlayerIndex s)))
                                (Num (- of_int (SECTORS ! nat k * m))),
                     history := \<lparr>desc = String m @ timesSign @ String (SECTORS ! nat k),
                                 delta = Num (- of_int (SECTORS ! nat k * m))\<rparr>
                                  # history (players s ! nat (activePlayerIndex s))\<rparr>]\<rparr>))"
proof -
  have ne: "players s \<noteq> []" using assms(2,3) by auto
  have aft': "aft = js_fmod (fadd E (fadd E (fdiv E (fmul E (e_atan2 E y x) 180) (e_PI E)) 90) 360) 360"
    unfolding assms(11) assms(10) ..
  have "0 \<le> k" and "k < 20"
    unfolding assms(12) sectorIndex_range(5) [OF assms(1) aft'] by simp_all
  then have sec: "SECTORS_at k = Some (SECTORS ! nat k)" by (rule SECTORS_at_range)
  show ?thesis
    using ne assms(8,9) sec
    unfolding assms(4,5,6,7,10,11,12,13) onBoardClick_def Let_def
    by (simp add: recordHit_valid [OF assms(2,3)] andThen_def)
qed

lemma not_innerBull:
  assumes ok: "engineOK E" and w: "0 \<le> w" and R: "Rpx = fdiv E w 2"
    and o: "fmul E Rpx (fdiv E OUTER_BULL_R SVG_RADIUS) < d"
  shows "\<not> d \<le> fmul E Rpx (fdiv E INNER_BULL_R SVG_RADIUS)"
    and "\<not> d \<le> fmul E Rpx (fdiv E OUTER_BULL_R SVG_RADIUS)"
proof -
  have z: "e_rnd E 0 = 0" using ok by (rule engineOK_zero)
  have "e_rnd E 0 \<le> e_rnd E (w / 2)" using ok w by (intro engineOK_mono) simp_all
  then have R0: "0 \<le> Rpx" by (simp add: R fdiv_def z)
  have "e_rnd E 0 \<le> e_rnd E (INNER_BULL_R / SVG_RADIUS)"
    using ok by (intro engineOK_mono) (simp_all add: radii_defs)
  then have c0: "0 \<le> fdiv E INNER_BULL_R SVG_RADIUS" by (simp add: fdiv_def z)
  have c: "fdiv E INNER_BULL_R SVG_RADIUS \<le> fdiv E OUTER_BULL_R SVG_RADIUS"
    unfolding fdiv_def using ok by (intro engineOK_mono) (simp_all add: radii_defs)
  have p0: "0 \<le> Rpx * fdiv E INNER_BULL_R SVG_RADIUS" using R0 c0 by simp
  have "Rpx * fdiv E INNER_BULL_R SVG_RADIUS \<le> Rpx * fdiv E OUTER_BULL_R SVG_RADIUS"
    using c R0 by (rule mult_left_mono)
  with ok p0 have "fmul E Rpx (fdiv E INNER_BULL_R SVG_RADIUS)
                     \<le> fmul E Rpx (fdiv E OUTER_BULL_R SVG_RADIUS)"
    unfolding fmul_def by (rule engineOK_mono)
  then show "\<not> d \<le> fmul E Rpx (fdiv E INNER_BULL_R SVG_RADIUS)" using o by linarith
  show "\<not> d \<le> fmul E Rpx (fdiv E OUTER_BULL_R SVG_RADIUS)" using o by linarith
qed

lemma onePlayer_valid:
  "0 \<le> activePlayerIndex onePlayer" "activePlayerIndex onePlayer < int (length (players onePlayer))"
  by (simp_all add: onePlayer_eq initialState_def)


lemma onBoardClick_sector_result:
  assumes "engineOK E"
    and "0 \<le> activePlayerIndex s" and "activePlayerIndex s < int (length (players s))"
    and "x = fsub E (clientX e) (fadd E (rect_left r) (fdiv E (rect_width r) 2))"
    and "y = fsub E (clientY e) (fadd E (rect_top r) (fdiv E (rect_height r) 2))"
    and "Rpx = fdiv E (rect_width r) 2"
    and "d = e_hypot E x y"
    and "\<not> d \<le> fmul E Rpx (fdiv E INNER_BULL_R SVG_RADIUS)"
    and "\<not> d \<le> fmul E Rpx (fdiv E OUTER_BULL_R SVG_RADIUS)"
    and "ad = fdiv E (fmul E (e_atan2 E y x) 180) (e_PI E)"
    and "aft = js_fmod (fadd E (fadd E ad 90) 360) 360"
    and "k = js_rem (Math_round (fdiv E aft 18)) 20"
    and "m = (if fmul E Rpx (fdiv E TRIPLE_INNER SVG_RADIUS) \<le> d \<and>
                 d \<le> fmul E Rpx (fdiv E TRIPLE_OUTER SVG_RADIUS) then 3
              else if fmul E Rpx (fdiv E DOUBLE_INNER SVG_RADIUS) \<le> d \<and>
                      d \<le> fmul E Rpx (fdiv E DOUBLE_OUTER SVG_RADIUS) then 2
              else 1)"
  shows "\<exists>s' h. onBoardClick E e (Some r) s = Inr s' \<and> lastHit s' = Some h \<and>
           sectorIndex h = k \<and> sectorNumber h = Some (SECTORS ! nat k) \<and> mult h = m \<and>
           rawScore h = SECTORS ! nat k * m \<and>
           score (players s' ! nat (activePlayerIndex s)) =
             jsAdd (score (players s ! nat (activePlayerIndex s)))
               (Num (- of_int (SECTORS ! nat k * m))) \<and>
           history (players s' ! nat (activePlayerIndex s)) =
             \<lparr>desc = String m @ timesSign @ String (SECTORS ! nat k),
              delta = Num (- of_int (SECTORS ! nat k * m))\<rparr>
               # history (players s ! nat (activePlayerIndex s))"
proof -
  have i: "nat (activePlayerIndex s) < length (players s)"
    using assms(2,3) by linarith
  show ?thesis
    unfolding onBoardClick_sector [OF assms]
    using i by (simp add: setLastHit_def makeLastHit_fields)
qed

lemma fl64_numeral: "(numeral k :: int) \<le> 2 ^ 53 \<Longrightarrow> fl64 (numeral k) = numeral k"
  using fl64_int [of "numeral k"] by simp

lemma fl64_zero: "fl64 0 = 0"
  by (simp add: fl64_def)

lemma Math_hypot_axis: "0 \<le> x \<Longrightarrow> Math_hypot x 0 = x"
  by (simp add: Math_hypot_def)

lemma b64_board460:
  "fdiv binary64Engine (rect_width board460) 2 = 230"
  "fadd binary64Engine (rect_left board460) (fdiv binary64Engine (rect_width board460) 2) = 230"
  "fadd binary64Engine (rect_top board460) (fdiv binary64Engine (rect_height board460) 2) = 230"
  by (simp_all add: fdiv_def fadd_def binary64Engine_def board460_def fl64_numeral)

lemma b64_innerBull:
  "fmul binary64Engine 230 (fdiv binary64Engine INNER_BULL_R SVG_RADIUS) = 23"
proof -
  have q: "fdiv binary64Engine INNER_BULL_R SVG_RADIUS = 3602879701896397 / 36028797018963968"
    unfolding fdiv_def binary64Engine_def engine.select_convs radii_defs
    by (subst fl64_eval [where k = "- 4"])
       (simp_all add: round_half_even_def power_int_minus Let_def)
  show ?thesis
    unfolding q unfolding fmul_def binary64Engine_def engine.select_convs
    by (subst fl64_eval [where k = 4])
       (simp_all add: round_half_even_def power_int_minus Let_def)
qed

lemma b64_outerBull:
  "fmul binary64Engine 230 (fdiv binary64Engine OUTER_BULL_R SVG_RADIUS) = 46"
proof -
  have q: "fdiv binary64Engine OUTER_BULL_R SVG_RADIUS = 3602879701896397 / 18014398509481984"
    unfolding fdiv_def binary64Engine_def engine.select_convs radii_defs
    by (subst fl64_eval [where k = "- 3"])
       (simp_all add: round_half_even_def power_int_minus Let_def)
  show ?thesis
    unfolding q unfolding fmul_def binary64Engine_def engine.select_convs
    by (subst fl64_eval [where k = 5])
       (simp_all add: round_half_even_def power_int_minus Let_def)
qed

lemma b64_tripleInner:
  "fmul binary64Engine 230 (fdiv binary64Engine TRIPLE_INNER SVG_RADIUS) =
     1861253283499213 / 17592186044416"
proof -
  have q: "fdiv binary64Engine TRIPLE_INNER SVG_RADIUS = 8286623314361713 / 18014398509481984"
    unfolding fdiv_def binary64Engine_def engine.select_convs radii_defs
    by (subst fl64_eval [where k = "- 2"])
       (simp_all add: round_half_even_def power_int_minus Let_def)
  show ?thesis
    unfolding q unfolding fmul_def binary64Engine_def engine.select_convs
    by (subst fl64_eval [where k = 6])
       (simp_all add: round_half_even_def power_int_minus Let_def)
qed

lemma b64_tripleOuter:
  "fmul binary64Engine 230 (fdiv binary64Engine TRIPLE_OUTER SVG_RADIUS) =
     2265873562520781 / 17592186044416"
proof -
  have q: "fdiv binary64Engine TRIPLE_OUTER SVG_RADIUS = 1261007895663739 / 2251799813685248"
    unfolding fdiv_def binary64Engine_def engine.select_convs radii_defs
    by (subst fl64_eval [where k = "- 1"])
       (simp_all add: round_half_even_def power_int_minus Let_def)
  show ?thesis
    unfolding q unfolding fmul_def binary64Engine_def engine.select_convs
    by (subst fl64_eval [where k = 7])
       (simp_all add: round_half_even_def power_int_minus Let_def)
qed

lemma fl64_tripleEdge:
  "fl64 (2265873562520781 / 17592186044416) = 2265873562520781 / 17592186044416"
  by (rule fl64_dyadic [where m = 2265873562520781 and j = "- 44"])
     (simp_all add: power_int_minus)

lemma b64_tripleEdge_click:
  "fsub binary64Engine (clientX \<lparr>clientX = 6312076352736461 / 17592186044416, clientY = 230\<rparr>)
     (fadd binary64Engine (rect_left board460) (fdiv binary64Engine (rect_width board460) 2)) =
     2265873562520781 / 17592186044416"
  "fsub binary64Engine (clientY \<lparr>clientX = 6312076352736461 / 17592186044416, clientY = 230\<rparr>)
     (fadd binary64Engine (rect_top board460) (fdiv binary64Engine (rect_height board460) 2)) = 0"
  "e_hypot binary64Engine (2265873562520781 / 17592186044416) 0 =
     2265873562520781 / 17592186044416"
proof -
  show "fsub binary64Engine (clientX \<lparr>clientX = 6312076352736461 / 17592186044416, clientY = 230\<rparr>)
     (fadd binary64Engine (rect_left board460) (fdiv binary64Engine (rect_width board460) 2)) =
     2265873562520781 / 17592186044416"
    unfolding b64_board460(2) by (simp add: fsub_def binary64Engine_def fl64_tripleEdge)
  show "fsub binary64Engine (clientY \<lparr>clientX = 6312076352736461 / 17592186044416, clientY = 230\<rparr>)
     (fadd binary64Engine (rect_top board460) (fdiv binary64Engine (rect_height board460) 2)) = 0"
    unfolding b64_board460(3) by (simp add: fsub_def binary64Engine_def fl64_zero)
  have "Math_hypot (2265873562520781 / 17592186044416) 0 = 2265873562520781 / 17592186044416"
    by (rule Math_hypot_axis) simp
  then show "e_hypot binary64Engine (2265873562520781 / 17592186044416) 0 =
     2265873562520781 / 17592186044416"
    by (simp only: binary64Engine_def engine.select_convs fl64_tripleEdge)
qed

section \<open>Bull hits\<close>

lemma bull_hits:
  assumes "0 \<le> activePlayerIndex s" and "activePlayerIndex s < int (length (players s))"
    and "x = fsub E (clientX e) (fadd E (rect_left r) (fdiv E (rect_width r) 2))"
    and "y = fsub E (clientY e) (fadd E (rect_top r) (fdiv E (rect_height r) 2))"
    and "Rpx = fdiv E (rect_width r) 2"
    and "d = e_hypot E x y"
    and "d \<le> fmul E Rpx (fdiv E INNER_BULL_R SVG_RADIUS) \<or>
         d \<le> fmul E Rpx (fdiv E OUTER_BULL_R SVG_RADIUS)"
  shows "\<exists>s' h. onBoardClick E e (Some r) s = Inr s' \<and> lastHit s' = Some h \<and> mult h = 1 \<and>
           rawScore h = (if d \<le> fmul E Rpx (fdiv E INNER_BULL_R SVG_RADIUS) then 50 else 25) \<and>
           sectorNumber h = Some (rawScore h) \<and>
           score (players s' ! nat (activePlayerIndex s)) =
             jsAdd (score (players s ! nat (activePlayerIndex s))) (Num (- of_int (rawScore h)))"
proof (cases "d \<le> fmul E Rpx (fdiv E INNER_BULL_R SVG_RADIUS)")
  case True
  have i: "nat (activePlayerIndex s) < length (players s)"
    using assms(1,2) by linarith
  show ?thesis
    unfolding onBoardClick_innerBull [OF assms(1-6) True]
    using i True by (simp add: setLastHit_def makeLastHit_fields)
next
  case False
  then have o: "d \<le> fmul E Rpx (fdiv E OUTER_BULL_R SVG_RADIUS)" using assms(7) by simp
  have i: "nat (activePlayerIndex s) < length (players s)"
    using assms(1,2) by linarith
  show ?thesis
    unfolding onBoardClick_outerBull [OF assms(1-6) False o]
    using i False by (simp add: setLastHit_def makeLastHit_fields)
qed

text \<open>
  Claim C4. For every pointer coordinate within the inner bull radius the
  resolved hit has \<open>rawScore = 50\<close> and \<open>mult = 1\<close>, and within the outer bull
  radius \<open>rawScore = 25\<close> and \<open>mult = 1\<close>, whatever the angle (lemma
  \<open>bull_hits\<close>). The inner bull hit is also claimed to carry no sector number.
  That part fails: \<open>onBoardClick\<close> passes the number 50 to \<open>makeLastHit\<close> as
  \<open>sectorNumber\<close>, and \<open>makeLastHit\<close> turns only strings into \<open>null\<close>, so the
  field is 50. The click below is at the center of a board of 460 pixels, with
  one player, in arithmetic without rounding and in binary64 arithmetic.
\<close>

theorem inner_bull_sectorNumber:
  "(\<exists>s' h. onBoardClick exactEngine \<lparr>clientX = 230, clientY = 230\<rparr> (Some board460) onePlayer
              = Inr s' \<and>
          lastHit s' = Some h \<and> rawScore h = 50 \<and> mult h = 1 \<and> sectorNumber h = Some 50 \<and>
          map score (players s') = [Num 451]) \<and>
   (\<exists>s' h. onBoardClick binary64Engine \<lparr>clientX = 230, clientY = 230\<rparr> (Some board460) onePlayer
              = Inr s' \<and>
          lastHit s' = Some h \<and> rawScore h = 50 \<and> mult h = 1 \<and> sectorNumber h = Some 50 \<and>
          map score (players s') = [Num 451])"
proof
  have e: "onBoardClick exactEngine \<lparr>clientX = 230, clientY = 230\<rparr> (Some board460) onePlayer =
           Inr (setLastHit
             (Some (makeLastHit exactEngine (nmul exactEngine (ndiv exactEngine 0 230) SVG_RADIUS)
                      0 0 (LNum 50) 1 50 None None None))
             (onePlayer\<lparr>players := (players onePlayer)[nat (activePlayerIndex onePlayer) :=
                  (players onePlayer ! nat (activePlayerIndex onePlayer))
                    \<lparr>score := jsAdd (score (players onePlayer ! nat (activePlayerIndex onePlayer)))
                                (Num (- 50)),
                     history := \<lparr>desc = innerBullLabel, delta = Num (- 50)\<rparr>
                        # history (players onePlayer ! nat (activePlayerIndex onePlayer))\<rparr>]\<rparr>))"
    by (rule onBoardClick_innerBull [OF onePlayer_valid])
       (simp_all add: exact_ops board460_def Math_hypot_def radii_defs)
  show "\<exists>s' h. onBoardClick exactEngine \<lparr>clientX = 230, clientY = 230\<rparr> (Some board460) onePlayer
              = Inr s' \<and>
          lastHit s' = Some h \<and> rawScore h = 50 \<and> mult h = 1 \<and> sectorNumber h = Some 50 \<and>
          map score (players s') = [Num 451]"
    unfolding e
    by (simp add: setLastHit_def makeLastHit_fields onePlayer_eq initialState_def roundNum_numeral)
  have b: "onBoardClick binary64Engine \<lparr>clientX = 230, clientY = 230\<rparr> (Some board460) onePlayer =
           Inr (setLastHit
             (Some (makeLastHit binary64Engine
                      (nmul binary64Engine (ndiv binary64Engine 0 230) SVG_RADIUS)
                      0 0 (LNum 50) 1 50 None None None))
             (onePlayer\<lparr>players := (players onePlayer)[nat (activePlayerIndex onePlayer) :=
                  (players onePlayer ! nat (activePlayerIndex onePlayer))
                    \<lparr>score := jsAdd (score (players onePlayer ! nat (activePlayerIndex onePlayer)))
                                (Num (- 50)),
                     history := \<lparr>desc = innerBullLabel, delta = Num (- 50)\<rparr>
                        # history (players onePlayer ! nat (activePlayerIndex onePlayer))\<rparr>]\<rparr>))"
  proof (rule onBoardClick_innerBull [OF onePlayer_valid])
    show "(0::real) = fsub binary64Engine (clientX \<lparr>clientX = 230, clientY = 230\<rparr>)
            (fadd binary64Engine (rect_left board460) (fdiv binary64Engine (rect_width board460) 2))"
      unfolding b64_board460(2) by (simp add: fsub_def binary64Engine_def fl64_zero)
    show "(0::real) = fsub binary64Engine (clientY \<lparr>clientX = 230, clientY = 230\<rparr>)
            (fadd binary64Engine (rect_top board460) (fdiv binary64Engine (rect_height board460) 2))"
      unfolding b64_board460(3) by (simp add: fsub_def binary64Engine_def fl64_zero)
    show "(230::real) = fdiv binary64Engine (rect_width board460) 2"
      by (simp only: b64_board460)
    show "(0::real) = e_hypot binary64Engine 0 0"
      by (simp add: binary64Engine_def Math_hypot_def fl64_zero)
    show "(0::real) \<le> fmul binary64Engine 230 (fdiv binary64Engine INNER_BULL_R SVG_RADIUS)"
      by (simp add: b64_innerBull)
  qed
  show "\<exists>s' h. onBoardClick binary64Engine \<lparr>clientX = 230, clientY = 230\<rparr> (Some board460) onePlayer
              = Inr s' \<and>
          lastHit s' = Some h \<and> rawScore h = 50 \<and> mult h = 1 \<and> sectorNumber h = Some 50 \<and>
          map score (players s') = [Num 451]"
    unfolding b
    by (simp add: setLastHit_def makeLastHit_fields onePlayer_eq initialState_def roundNum_numeral)
qed

section \<open>Ring multiplier\<close>

text \<open>
  Claim C5. For every pointer coordinate outside the outer bull, however far
  from the center, the click is recorded; the multiplier is 3 when the distance
  is within the triple band, else 2 when it is within the double band, else 1,
  all bounds inclusive, so it depends on the distance only; and the raw score,
  which is subtracted from the active player's score, is the sector number
  times the multiplier. The distance and the radii are the numbers that the
  engine computes, in pixels; the engine is any of the kind \<open>engineOK\<close>, so
  binary64 arithmetic is included. The width of the board is not negative, as
  for every rectangle that \<open>getBoundingClientRect\<close> returns.
\<close>

theorem ring_multiplier:
  assumes "engineOK E"
    and "0 \<le> activePlayerIndex s" and "activePlayerIndex s < int (length (players s))"
    and "0 \<le> rect_width r"
    and "x = fsub E (clientX e) (fadd E (rect_left r) (fdiv E (rect_width r) 2))"
    and "y = fsub E (clientY e) (fadd E (rect_top r) (fdiv E (rect_height r) 2))"
    and "Rpx = fdiv E (rect_width r) 2"
    and "d = e_hypot E x y"
    and "fmul E Rpx (fdiv E OUTER_BULL_R SVG_RADIUS) < d"
  shows "\<exists>s' h n. onBoardClick E e (Some r) s = Inr s' \<and> lastHit s' = Some h \<and>
           sectorNumber h = Some n \<and>
           mult h = (if fmul E Rpx (fdiv E TRIPLE_INNER SVG_RADIUS) \<le> d \<and>
                        d \<le> fmul E Rpx (fdiv E TRIPLE_OUTER SVG_RADIUS) then 3
                     else if fmul E Rpx (fdiv E DOUBLE_INNER SVG_RADIUS) \<le> d \<and>
                             d \<le> fmul E Rpx (fdiv E DOUBLE_OUTER SVG_RADIUS) then 2
                     else 1) \<and>
           rawScore h = n * mult h \<and>
           score (players s' ! nat (activePlayerIndex s)) =
             jsAdd (score (players s ! nat (activePlayerIndex s))) (Num (- of_int (rawScore h))) \<and>
           history (players s' ! nat (activePlayerIndex s)) =
             \<lparr>desc = String (mult h) @ timesSign @ String n, delta = Num (- of_int (rawScore h))\<rparr>
               # history (players s ! nat (activePlayerIndex s))"
proof -
  define k where "k = js_rem (Math_round (fdiv E (js_fmod (fadd E (fadd E
      (fdiv E (fmul E (e_atan2 E y x) 180) (e_PI E)) 90) 360) 360) 18)) 20"
  define m :: int where "m = (if fmul E Rpx (fdiv E TRIPLE_INNER SVG_RADIUS) \<le> d \<and>
                        d \<le> fmul E Rpx (fdiv E TRIPLE_OUTER SVG_RADIUS) then 3
                     else if fmul E Rpx (fdiv E DOUBLE_INNER SVG_RADIUS) \<le> d \<and>
                             d \<le> fmul E Rpx (fdiv E DOUBLE_OUTER SVG_RADIUS) then 2
                     else 1)"
  note nb = not_innerBull [OF assms(1,4,7,9)]
  from onBoardClick_sector_result [OF assms(1-3,5-8) nb refl refl k_def m_def]
  obtain s' h where
    h: "onBoardClick E e (Some r) s = Inr s'" "lastHit s' = Some h"
      "sectorNumber h = Some (SECTORS ! nat k)" "mult h = m"
      "rawScore h = SECTORS ! nat k * m"
      "score (players s' ! nat (activePlayerIndex s)) =
         jsAdd (score (players s ! nat (activePlayerIndex s)))
           (Num (- of_int (SECTORS ! nat k * m)))"
      "history (players s' ! nat (activePlayerIndex s)) =
         \<lparr>desc = String m @ timesSign @ String (SECTORS ! nat k),
          delta = Num (- of_int (SECTORS ! nat k * m))\<rparr>
           # history (players s ! nat (activePlayerIndex s))"
    by (elim exE conjE)
  show ?thesis
  proof (intro exI conjI)
    show "onBoardClick E e (Some r) s = Inr s'" by fact
    show "lastHit s' = Some h" by fact
    show "sectorNumber h = Some (SECTORS ! nat k)" by fact
    show "mult h = (if fmul E Rpx (fdiv E TRIPLE_INNER SVG_RADIUS) \<le> d \<and>
                        d \<le> fmul E Rpx (fdiv E TRIPLE_OUTER SVG_RADIUS) then 3
                     else if fmul E Rpx (fdiv E DOUBLE_INNER SVG_RADIUS) \<le> d \<and>
                             d \<le> fmul E Rpx (fdiv E DOUBLE_OUTER SVG_RADIUS) then 2
                     else 1)"
      unfolding h(4) by (rule m_def)
    show "rawScore h = SECTORS ! nat k * mult h" unfolding h(4) by (rule h(5))
    show "score (players s' ! nat (activePlayerIndex s)) =
             jsAdd (score (players s ! nat (activePlayerIndex s))) (Num (- of_int (rawScore h)))"
      unfolding h(5) by (rule h(6))
    show "history (players s' ! nat (activePlayerIndex s)) =
             \<lparr>desc = String (mult h) @ timesSign @ String (SECTORS ! nat k),
              delta = Num (- of_int (rawScore h))\<rparr>
               # history (players s ! nat (activePlayerIndex s))"
      unfolding h(4,5) by (rule h(7))
  qed
qed

theorem ring_multiplier_witness:
  "engineOK binary64Engine \<and>
   0 \<le> activePlayerIndex onePlayer \<and>
   activePlayerIndex onePlayer < int (length (players onePlayer)) \<and>
   0 \<le> rect_width board460 \<and>
   fmul binary64Engine 230 (fdiv binary64Engine OUTER_BULL_R SVG_RADIUS)
     < 2265873562520781 / 17592186044416 \<and>
   (\<exists>s' h n. onBoardClick binary64Engine
                \<lparr>clientX = 6312076352736461 / 17592186044416, clientY = 230\<rparr>
                (Some board460) onePlayer = Inr s' \<and>
      lastHit s' = Some h \<and> sectorNumber h = Some n \<and> mult h = 3 \<and> rawScore h = n * 3)"
proof -
  let ?c = "\<lparr>clientX = 6312076352736461 / 17592186044416, clientY = 230\<rparr>"
  let ?d = "2265873562520781 / 17592186044416 :: real"
  have w: "0 \<le> rect_width board460" by (simp add: board460_def)
  have n: "fmul binary64Engine 230 (fdiv binary64Engine OUTER_BULL_R SVG_RADIUS) < ?d"
    by (simp add: b64_outerBull)
  have m: "(if fmul binary64Engine 230 (fdiv binary64Engine TRIPLE_INNER SVG_RADIUS) \<le> ?d \<and>
               ?d \<le> fmul binary64Engine 230 (fdiv binary64Engine TRIPLE_OUTER SVG_RADIUS) then 3
            else if fmul binary64Engine 230 (fdiv binary64Engine DOUBLE_INNER SVG_RADIUS) \<le> ?d \<and>
                    ?d \<le> fmul binary64Engine 230 (fdiv binary64Engine DOUBLE_OUTER SVG_RADIUS) then 2
            else 1) = (3::int)"
    by (simp add: b64_tripleInner b64_tripleOuter)
  from ring_multiplier [OF engineOK_binary64 onePlayer_valid w
      b64_tripleEdge_click(1) [symmetric] b64_tripleEdge_click(2) [symmetric]
      b64_board460(1) [symmetric] b64_tripleEdge_click(3) [symmetric] n]
  obtain s' h n where
    h: "onBoardClick binary64Engine ?c (Some board460) onePlayer = Inr s'"
       "lastHit s' = Some h" "sectorNumber h = Some n"
       "mult h = (if fmul binary64Engine 230 (fdiv binary64Engine TRIPLE_INNER SVG_RADIUS) \<le> ?d \<and>
               ?d \<le> fmul binary64Engine 230 (fdiv binary64Engine TRIPLE_OUTER SVG_RADIUS) then 3
            else if fmul binary64Engine 230 (fdiv binary64Engine DOUBLE_INNER SVG_RADIUS) \<le> ?d \<and>
                    ?d \<le> fmul binary64Engine 230 (fdiv binary64Engine DOUBLE_OUTER SVG_RADIUS) then 2
            else 1)"
       "rawScore h = n * mult h"
    by (elim exE conjE)
  have m3: "mult h = 3" using h(4) unfolding m .
  have r: "\<exists>s' h n. onBoardClick binary64Engine ?c (Some board460) onePlayer = Inr s' \<and>
      lastHit s' = Some h \<and> sectorNumber h = Some n \<and> mult h = 3 \<and> rawScore h = n * 3"
    using h(1,2,3,5) m3 by (intro exI [of _ s'] exI [of _ h] exI [of _ n]) simp
  show ?thesis
    by (intro conjI) (rule engineOK_binary64 onePlayer_valid w n r)+
qed


section \<open>Sector by nearest center\<close>

lemma Math_round_nearest: "\<bar>q - of_int (Math_round q)\<bar> \<le> 1 / 2"
proof -
  have "of_int \<lfloor>q + 1 / 2\<rfloor> \<le> q + 1 / 2" by (rule of_int_floor_le)
  moreover have "q + 1 / 2 < of_int \<lfloor>q + 1 / 2\<rfloor> + 1" by linarith
  ultimately show ?thesis unfolding Math_round_def by linarith
qed

lemma Math_round_tie: "Math_round (of_int k + 1 / 2) = k + 1"
proof -
  have "of_int k + 1 / 2 + 1 / 2 = (of_int (k + 1) :: real)" by simp
  then show ?thesis unfolding Math_round_def by (simp only: floor_of_int)
qed

lemma half_sector_quotient:
  assumes ok: "engineOK E" and lo: "0 \<le> aft" and hi: "aft < 360"
    and t: "aft = 18 * of_int k + 9"
  shows "fdiv E aft 18 = of_int k + 1 / 2"
proof -
  have "- 1 < real_of_int k" using lo t by linarith
  then have "- 1 < k" by linarith
  then have k0: "0 \<le> 2 * k + 1" by linarith
  have "real_of_int k < 20" using hi t by linarith
  then have "k < 20" by linarith
  then have k1: "2 * k + 1 \<le> 40" by linarith
  have "aft / 18 = of_int (2 * k + 1) / 2" unfolding t by simp
  then have "fdiv E aft 18 = e_rnd E (of_int (2 * k + 1) / 2)" by (simp only: fdiv_def)
  also have "\<dots> = of_int (2 * k + 1) / 2" using ok k0 k1 by (rule engineOK_half)
  also have "\<dots> = of_int k + 1 / 2" by simp
  finally show ?thesis .
qed

text \<open>
  Claim C6. For every pointer coordinate outside the outer bull, with
  \<open>angleFromTop = (atan2 (dy, dx) in degrees + 90 + 360) % 360\<close>, which lies in
  \<open>[0, 360)\<close> and differs from the shifted angle by a multiple of 360, the sector
  index is \<open>round (angleFromTop / 18) mod 20\<close>, the sector number is the entry of
  \<open>SECTORS\<close> at that index, the rounded value is the integer nearest to the
  quotient (at most \<open>1/2\<close> away), a quotient exactly halfway between \<open>k\<close> and
  \<open>k + 1\<close> goes to the index \<open>(k + 1) mod 20\<close>, and an angle exactly 9 degrees
  past the center \<open>k\<close> has such a quotient. The angles and the quotient are the
  numbers that the engine computes; the engine is any of the kind \<open>engineOK\<close>,
  so binary64 arithmetic is included. The width of the board is not negative.
\<close>

theorem sector_nearest_center:
  assumes "engineOK E"
    and "0 \<le> activePlayerIndex s" and "activePlayerIndex s < int (length (players s))"
    and "0 \<le> rect_width r"
    and "x = fsub E (clientX e) (fadd E (rect_left r) (fdiv E (rect_width r) 2))"
    and "y = fsub E (clientY e) (fadd E (rect_top r) (fdiv E (rect_height r) 2))"
    and "Rpx = fdiv E (rect_width r) 2"
    and "d = e_hypot E x y"
    and "fmul E Rpx (fdiv E OUTER_BULL_R SVG_RADIUS) < d"
    and "ad = fdiv E (fmul E (e_atan2 E y x) 180) (e_PI E)"
    and "aft = js_fmod (fadd E (fadd E ad 90) 360) 360"
    and "q = fdiv E aft 18"
  shows "0 \<le> aft \<and> aft < 360 \<and>
         (\<exists>j::int. aft = fadd E (fadd E ad 90) 360 - 360 * of_int j) \<and>
         (\<exists>s' h. onBoardClick E e (Some r) s = Inr s' \<and> lastHit s' = Some h \<and>
            sectorIndex h = Math_round q mod 20 \<and>
            0 \<le> sectorIndex h \<and> sectorIndex h < 20 \<and>
            sectorNumber h = Some (SECTORS ! nat (sectorIndex h)) \<and>
            \<bar>q - of_int (Math_round q)\<bar> \<le> 1 / 2 \<and>
            (\<forall>k. q = of_int k + 1 / 2 \<longrightarrow>
                 Math_round q = k + 1 \<and> sectorIndex h = (k + 1) mod 20) \<and>
            (\<forall>k. aft = 18 * of_int k + 9 \<longrightarrow>
                 q = of_int k + 1 / 2 \<and> sectorIndex h = (k + 1) mod 20))"
proof -
  have aft': "aft = js_fmod (fadd E (fadd E (fdiv E (fmul E (e_atan2 E y x) 180) (e_PI E)) 90) 360) 360"
    unfolding assms(11) assms(10) ..
  have a0: "0 \<le> fadd E (fadd E ad 90) 360"
    unfolding assms(10) using assms(1) by (rule angleSum_nonneg)
  have rng: "0 \<le> aft" "aft < 360"
    using sectorIndex_range(1,2) [OF assms(1) aft'] by simp_all
  have "aft = fadd E (fadd E ad 90) 360
                - 360 * of_int \<lfloor>fadd E (fadd E ad 90) 360 / 360\<rfloor>"
    unfolding assms(11) using a0 by (intro js_fmod_nonneg(1)) simp_all
  then have cong: "\<exists>j::int. aft = fadd E (fadd E ad 90) 360 - 360 * of_int j"
    by (rule exI)
  have k: "js_rem (Math_round q) 20 = Math_round q mod 20"
    unfolding assms(12) using assms(1) aft' by (rule sectorIndex_range(5))
  note nb = not_innerBull [OF assms(1,4,7,9)]
  from onBoardClick_sector_result [OF assms(1-3,5-8) nb assms(10,11) refl refl]
  obtain s' h where h: "onBoardClick E e (Some r) s = Inr s'" "lastHit s' = Some h"
    "sectorIndex h = js_rem (Math_round (fdiv E aft 18)) 20"
    "sectorNumber h = Some (SECTORS ! nat (js_rem (Math_round (fdiv E aft 18)) 20))"
    by (elim exE conjE)
  have idx: "sectorIndex h = Math_round q mod 20"
    using h(3) k by (simp only: assms(12))
  have tie: "\<forall>k. q = of_int k + 1 / 2 \<longrightarrow>
                 Math_round q = k + 1 \<and> sectorIndex h = (k + 1) mod 20"
    using idx by (auto simp: Math_round_tie)
  have half: "\<forall>k. aft = 18 * of_int k + 9 \<longrightarrow>
                 q = of_int k + 1 / 2 \<and> sectorIndex h = (k + 1) mod 20"
  proof (intro allI impI)
    fix k :: int
    assume t: "aft = 18 * of_int k + 9"
    have "q = of_int k + 1 / 2"
      unfolding assms(12) using assms(1) rng t by (rule half_sector_quotient)
    then show "q = of_int k + 1 / 2 \<and> sectorIndex h = (k + 1) mod 20"
      using idx by (simp add: Math_round_tie)
  qed
  have lo: "0 \<le> sectorIndex h" and hi: "sectorIndex h < 20"
    using idx by simp_all
  have sn: "sectorNumber h = Some (SECTORS ! nat (sectorIndex h))"
    using h(3,4) by simp
  have near: "\<bar>q - of_int (Math_round q)\<bar> \<le> 1 / 2"
    by (rule Math_round_nearest)
  show ?thesis
  proof (intro conjI)
    show "0 \<le> aft" by fact
    show "aft < 360" by fact
    show "\<exists>j::int. aft = fadd E (fadd E ad 90) 360 - 360 * of_int j" by fact
    show "\<exists>s' h. onBoardClick E e (Some r) s = Inr s' \<and> lastHit s' = Some h \<and>
            sectorIndex h = Math_round q mod 20 \<and>
            0 \<le> sectorIndex h \<and> sectorIndex h < 20 \<and>
            sectorNumber h = Some (SECTORS ! nat (sectorIndex h)) \<and>
            \<bar>q - of_int (Math_round q)\<bar> \<le> 1 / 2 \<and>
            (\<forall>k. q = of_int k + 1 / 2 \<longrightarrow>
                 Math_round q = k + 1 \<and> sectorIndex h = (k + 1) mod 20) \<and>
            (\<forall>k. aft = 18 * of_int k + 9 \<longrightarrow>
                 q = of_int k + 1 / 2 \<and> sectorIndex h = (k + 1) mod 20)"
    proof (intro exI conjI)
      show "onBoardClick E e (Some r) s = Inr s'" by fact
      show "lastHit s' = Some h" by fact
      show "sectorIndex h = Math_round q mod 20" by fact
      show "0 \<le> sectorIndex h" by fact
      show "sectorIndex h < 20" by fact
      show "sectorNumber h = Some (SECTORS ! nat (sectorIndex h))" by fact
      show "\<bar>q - of_int (Math_round q)\<bar> \<le> 1 / 2" by fact
      show "\<forall>k. q = of_int k + 1 / 2 \<longrightarrow>
                 Math_round q = k + 1 \<and> sectorIndex h = (k + 1) mod 20" by fact
      show "\<forall>k. aft = 18 * of_int k + 9 \<longrightarrow>
                 q = of_int k + 1 / 2 \<and> sectorIndex h = (k + 1) mod 20" by fact
    qed
  qed
qed

lemma atan2_diag: "Math_atan2 (- 100) 100 = - (pi / 4)"
  by (simp add: Math_atan2_def arctan_minus arctan_one)

lemma exact_diag_click:
  "(100::real) = fsub exactEngine (clientX \<lparr>clientX = 330, clientY = 130\<rparr>)
      (fadd exactEngine (rect_left board460) (fdiv exactEngine (rect_width board460) 2))"
  "(- 100::real) = fsub exactEngine (clientY \<lparr>clientX = 330, clientY = 130\<rparr>)
      (fadd exactEngine (rect_top board460) (fdiv exactEngine (rect_height board460) 2))"
  "(230::real) = fdiv exactEngine (rect_width board460) 2"
  "sqrt 20000 = e_hypot exactEngine 100 (- 100)"
  "(- 45::real) = fdiv exactEngine (fmul exactEngine (e_atan2 exactEngine (- 100) 100) 180)
      (e_PI exactEngine)"
  "(45::real) = js_fmod (fadd exactEngine (fadd exactEngine (- 45) 90) 360) 360"
  "(5 / 2::real) = fdiv exactEngine 45 18"
  by (simp_all add: exact_ops board460_def Math_hypot_def atan2_diag js_fmod_def js_trunc_def)

lemma exact_diag_outside:
  "fmul exactEngine 230 (fdiv exactEngine OUTER_BULL_R SVG_RADIUS) < sqrt 20000"
proof -
  have "(46::real) < sqrt 20000" by (rule real_less_rsqrt) simp
  then show ?thesis by (simp add: exact_ops radii_defs)
qed

lemma b64_axis_angle:
  "(0::real) = fdiv binary64Engine
      (fmul binary64Engine (e_atan2 binary64Engine 0 (2265873562520781 / 17592186044416)) 180)
      (e_PI binary64Engine)"
  "(90::real) = js_fmod (fadd binary64Engine (fadd binary64Engine 0 90) 360) 360"
  "(5::real) = fdiv binary64Engine 90 18"
  by (simp_all add: fdiv_def fmul_def fadd_def binary64Engine_def Math_atan2_def fl64_zero
      fl64_numeral js_fmod_def js_trunc_def)

theorem sector_nearest_center_witness:
  "engineOK exactEngine \<and> engineOK binary64Engine \<and>
   0 \<le> activePlayerIndex onePlayer \<and>
   activePlayerIndex onePlayer < int (length (players onePlayer)) \<and>
   0 \<le> rect_width board460 \<and>
   fmul exactEngine 230 (fdiv exactEngine OUTER_BULL_R SVG_RADIUS) < sqrt 20000 \<and>
   (45::real) = 18 * of_int 2 + 9 \<and>
   (\<exists>s' h. onBoardClick exactEngine \<lparr>clientX = 330, clientY = 130\<rparr> (Some board460) onePlayer
              = Inr s' \<and>
      lastHit s' = Some h \<and> sectorIndex h = 3 \<and> sectorNumber h = Some 4) \<and>
   fmul binary64Engine 230 (fdiv binary64Engine OUTER_BULL_R SVG_RADIUS)
     < 2265873562520781 / 17592186044416 \<and>
   (\<exists>s' h. onBoardClick binary64Engine
              \<lparr>clientX = 6312076352736461 / 17592186044416, clientY = 230\<rparr>
              (Some board460) onePlayer = Inr s' \<and>
      lastHit s' = Some h \<and> sectorIndex h = 5 \<and> sectorNumber h = Some 6)"
proof -
  let ?c = "\<lparr>clientX = 6312076352736461 / 17592186044416, clientY = 230\<rparr>"
  let ?d = "2265873562520781 / 17592186044416 :: real"
  have t: "(45::real) = 18 * of_int 2 + 9" by simp
  have w: "0 \<le> rect_width board460" by (simp add: board460_def)
  from sector_nearest_center [OF engineOK_exactEngine onePlayer_valid w exact_diag_click(1-4)
      exact_diag_outside exact_diag_click(5-7)]
  have "\<exists>s' h. onBoardClick exactEngine \<lparr>clientX = 330, clientY = 130\<rparr> (Some board460) onePlayer
              = Inr s' \<and>
          lastHit s' = Some h \<and>
          sectorIndex h = Math_round (5 / 2) mod 20 \<and>
          0 \<le> sectorIndex h \<and> sectorIndex h < 20 \<and>
          sectorNumber h = Some (SECTORS ! nat (sectorIndex h)) \<and>
          \<bar>5 / 2 - of_int (Math_round (5 / 2))\<bar> \<le> (1 / 2::real) \<and>
          (\<forall>k. (5 / 2::real) = of_int k + 1 / 2 \<longrightarrow>
               Math_round (5 / 2) = k + 1 \<and> sectorIndex h = (k + 1) mod 20) \<and>
          (\<forall>k. (45::real) = 18 * of_int k + 9 \<longrightarrow>
               (5 / 2::real) = of_int k + 1 / 2 \<and> sectorIndex h = (k + 1) mod 20)"
    by (elim conjE)
  then obtain s' h where
    h1: "onBoardClick exactEngine \<lparr>clientX = 330, clientY = 130\<rparr> (Some board460) onePlayer = Inr s'"
    and h2: "lastHit s' = Some h"
    and h3: "sectorNumber h = Some (SECTORS ! nat (sectorIndex h))"
    and tie: "\<forall>k. (45::real) = 18 * of_int k + 9 \<longrightarrow>
               (5 / 2::real) = of_int k + 1 / 2 \<and> sectorIndex h = (k + 1) mod 20"
    by (elim exE conjE)
  from tie have "(45::real) = 18 * of_int 2 + 9 \<longrightarrow>
               (5 / 2::real) = of_int 2 + 1 / 2 \<and> sectorIndex h = (2 + 1) mod 20"
    by (rule spec)
  from this t have "(5 / 2::real) = of_int 2 + 1 / 2 \<and> sectorIndex h = (2 + 1) mod 20"
    by (rule mp)
  then have i: "sectorIndex h = 3" by simp
  have n: "sectorNumber h = Some 4" using h3 i by (simp add: SECTORS_def)
  have r: "\<exists>s' h. onBoardClick exactEngine \<lparr>clientX = 330, clientY = 130\<rparr> (Some board460) onePlayer
             = Inr s' \<and>
      lastHit s' = Some h \<and> sectorIndex h = 3 \<and> sectorNumber h = Some 4"
    using h1 h2 i n by (intro exI [of _ s'] exI [of _ h]) simp
  have n: "fmul binary64Engine 230 (fdiv binary64Engine OUTER_BULL_R SVG_RADIUS) < ?d"
    by (simp add: b64_outerBull)
  from sector_nearest_center [OF engineOK_binary64 onePlayer_valid w
      b64_tripleEdge_click(1) [symmetric] b64_tripleEdge_click(2) [symmetric]
      b64_board460(1) [symmetric] b64_tripleEdge_click(3) [symmetric] n b64_axis_angle]
  have "\<exists>s' h. onBoardClick binary64Engine ?c (Some board460) onePlayer = Inr s' \<and>
          lastHit s' = Some h \<and>
          sectorIndex h = Math_round 5 mod 20 \<and>
          0 \<le> sectorIndex h \<and> sectorIndex h < 20 \<and>
          sectorNumber h = Some (SECTORS ! nat (sectorIndex h)) \<and>
          \<bar>5 - of_int (Math_round 5)\<bar> \<le> (1 / 2::real) \<and>
          (\<forall>k. (5::real) = of_int k + 1 / 2 \<longrightarrow>
               Math_round 5 = k + 1 \<and> sectorIndex h = (k + 1) mod 20) \<and>
          (\<forall>k. (90::real) = 18 * of_int k + 9 \<longrightarrow>
               (5::real) = of_int k + 1 / 2 \<and> sectorIndex h = (k + 1) mod 20)"
    by (elim conjE)
  then obtain u g where
    g1: "onBoardClick binary64Engine ?c (Some board460) onePlayer = Inr u"
    and g2: "lastHit u = Some g"
    and g3: "sectorIndex g = Math_round 5 mod 20"
    and g4: "sectorNumber g = Some (SECTORS ! nat (sectorIndex g))"
    by (elim exE conjE)
  have j: "sectorIndex g = 5" using g3 by (simp add: Math_round_def)
  have o: "sectorNumber g = Some 6" using g4 j by (simp add: SECTORS_def)
  have b: "\<exists>s' h. onBoardClick binary64Engine ?c (Some board460) onePlayer = Inr s' \<and>
      lastHit s' = Some h \<and> sectorIndex h = 5 \<and> sectorNumber h = Some 6"
    using g1 g2 j o by (intro exI [of _ u] exI [of _ g]) simp
  show ?thesis
    by (intro conjI)
       (rule engineOK_exactEngine engineOK_binary64 onePlayer_valid w exact_diag_outside t r n b)+
qed


section \<open>Pixel space against normalized space\<close>

lemma scale_le:
  assumes "0 < (R::real)"
  shows "(d \<le> R * (c / 50)) = (d * (50 / R) \<le> c)"
    and "(R * (c / 50) \<le> d) = (c \<le> d * (50 / R))"
  using assms by (simp_all add: field_simps)

lemma pixelClassify_normalized:
  assumes "0 < Rpx"
  shows "pixelClassify Rpx d = normalizedClassify Rpx d"
  unfolding pixelClassify_def normalizedClassify_def normalized_def radii_defs Let_def
  by (simp only: scale_le [OF assms])

lemma String_3: "String 3 = ''3''"
  by code_simp

lemma sector_desc_not_bull:
  assumes "m = 1 \<or> m = 2 \<or> m = 3"
  shows "String m @ timesSign @ String n \<noteq> innerBullLabel"
    and "String m @ timesSign @ String n \<noteq> outerBullLabel"
  using assms by (auto simp: String_1 String_2 String_3 innerBullLabel_def outerBullLabel_def)

lemma bull_labels_differ: "innerBullLabel \<noteq> outerBullLabel"
  by (simp add: innerBullLabel_def outerBullLabel_def)

lemma onBoardClick_pixelClassify:
  assumes "0 \<le> activePlayerIndex s" and "activePlayerIndex s < int (length (players s))"
    and "x = clientX e - (rect_left r + rect_width r / 2)"
    and "y = clientY e - (rect_top r + rect_height r / 2)"
    and "Rpx = rect_width r / 2"
  shows "\<exists>s' h ev rest. onBoardClick exactEngine e (Some r) s = Inr s' \<and> lastHit s' = Some h \<and>
           history (players s' ! nat (activePlayerIndex s)) = ev # rest \<and>
           recordedRing ev h = pixelClassify Rpx (Math_hypot x y)"
proof -
  have i: "nat (activePlayerIndex s) < length (players s)"
    using assms(1,2) by linarith
  have x: "x = fsub exactEngine (clientX e)
                 (fadd exactEngine (rect_left r) (fdiv exactEngine (rect_width r) 2))"
    and y: "y = fsub exactEngine (clientY e)
                 (fadd exactEngine (rect_top r) (fdiv exactEngine (rect_height r) 2))"
    and R: "Rpx = fdiv exactEngine (rect_width r) 2"
    and d: "Math_hypot x y = e_hypot exactEngine x y"
    using assms(3,4,5) by (simp_all add: exact_ops)
  consider (inner) "Math_hypot x y \<le> Rpx * (INNER_BULL_R / SVG_RADIUS)"
    | (outer) "\<not> Math_hypot x y \<le> Rpx * (INNER_BULL_R / SVG_RADIUS)"
              "Math_hypot x y \<le> Rpx * (OUTER_BULL_R / SVG_RADIUS)"
    | (sector) "\<not> Math_hypot x y \<le> Rpx * (INNER_BULL_R / SVG_RADIUS)"
               "\<not> Math_hypot x y \<le> Rpx * (OUTER_BULL_R / SVG_RADIUS)"
    by linarith
  then show ?thesis
  proof cases
    case inner
    then have t: "Math_hypot x y \<le> fmul exactEngine Rpx (fdiv exactEngine INNER_BULL_R SVG_RADIUS)"
      by (simp add: exact_ops)
    show ?thesis
      unfolding onBoardClick_innerBull [OF assms(1,2) x y R d t]
      using i inner by (simp add: setLastHit_def recordedRing_def pixelClassify_def)
  next
    case outer
    then have t: "\<not> Math_hypot x y \<le> fmul exactEngine Rpx (fdiv exactEngine INNER_BULL_R SVG_RADIUS)"
      "Math_hypot x y \<le> fmul exactEngine Rpx (fdiv exactEngine OUTER_BULL_R SVG_RADIUS)"
      by (simp_all add: exact_ops)
    show ?thesis
      unfolding onBoardClick_outerBull [OF assms(1,2) x y R d t]
      using i outer bull_labels_differ
      by (simp add: setLastHit_def recordedRing_def pixelClassify_def)
  next
    case sector
    then have t: "\<not> Math_hypot x y \<le> fmul exactEngine Rpx (fdiv exactEngine INNER_BULL_R SVG_RADIUS)"
      "\<not> Math_hypot x y \<le> fmul exactEngine Rpx (fdiv exactEngine OUTER_BULL_R SVG_RADIUS)"
      by (simp_all add: exact_ops)
    define m :: int where
      "m = (if Rpx * (TRIPLE_INNER / SVG_RADIUS) \<le> Math_hypot x y \<and>
               Math_hypot x y \<le> Rpx * (TRIPLE_OUTER / SVG_RADIUS) then 3
            else if Rpx * (DOUBLE_INNER / SVG_RADIUS) \<le> Math_hypot x y \<and>
                    Math_hypot x y \<le> Rpx * (DOUBLE_OUTER / SVG_RADIUS) then 2
            else 1)"
    have m': "m = (if fmul exactEngine Rpx (fdiv exactEngine TRIPLE_INNER SVG_RADIUS) \<le> Math_hypot x y \<and>
                 Math_hypot x y \<le> fmul exactEngine Rpx (fdiv exactEngine TRIPLE_OUTER SVG_RADIUS) then 3
              else if fmul exactEngine Rpx (fdiv exactEngine DOUBLE_INNER SVG_RADIUS) \<le> Math_hypot x y \<and>
                      Math_hypot x y \<le> fmul exactEngine Rpx (fdiv exactEngine DOUBLE_OUTER SVG_RADIUS) then 2
              else 1)"
      unfolding m_def by (simp only: exact_ops)
    from onBoardClick_sector_result [OF engineOK_exactEngine assms(1,2) x y R d t refl refl refl m']
    obtain s' h n where h: "onBoardClick exactEngine e (Some r) s = Inr s'" "lastHit s' = Some h"
      and m: "mult h = m"
      and hist: "history (players s' ! nat (activePlayerIndex s)) =
             \<lparr>desc = String m @ timesSign @ String n, delta = Num (- of_int (n * m))\<rparr>
               # history (players s ! nat (activePlayerIndex s))"
      by (elim exE conjE)
    have m123: "m = 1 \<or> m = 2 \<or> m = 3"
      unfolding m_def by simp
    have "recordedRing \<lparr>desc = String m @ timesSign @ String n, delta = Num (- of_int (n * m))\<rparr> h =
            pixelClassify Rpx (Math_hypot x y)"
      using sector m sector_desc_not_bull [OF m123, of n]
      by (auto simp: recordedRing_def pixelClassify_def m_def split: if_splits)
    with h hist show ?thesis by blast
  qed
qed

text \<open>
  Claim C10. In arithmetic without rounding, for every board of positive pixel
  radius and every pointer coordinate, the comparisons of the pixel distance
  with the scaled radii give the same class (inner bull, outer bull, triple,
  double or single) as the normalized classification of the distance times
  \<open>50 / displayRadius\<close> against the radii 5, 10, 23, 28, 38 and 44, and that
  class is the outcome that \<open>onBoardClick\<close> records.
\<close>

theorem pixel_refines_normalized:
  assumes "0 \<le> activePlayerIndex s" and "activePlayerIndex s < int (length (players s))"
    and "x = clientX e - (rect_left r + rect_width r / 2)"
    and "y = clientY e - (rect_top r + rect_height r / 2)"
    and "Rpx = rect_width r / 2"
    and "0 < Rpx"
  shows "pixelClassify Rpx (Math_hypot x y) = normalizedClassify Rpx (Math_hypot x y) \<and>
         (\<exists>s' h ev rest. onBoardClick exactEngine e (Some r) s = Inr s' \<and> lastHit s' = Some h \<and>
            history (players s' ! nat (activePlayerIndex s)) = ev # rest \<and>
            recordedRing ev h = normalizedClassify Rpx (Math_hypot x y))"
proof
  show "pixelClassify Rpx (Math_hypot x y) = normalizedClassify Rpx (Math_hypot x y)"
    using assms(6) by (rule pixelClassify_normalized)
  show "\<exists>s' h ev rest. onBoardClick exactEngine e (Some r) s = Inr s' \<and> lastHit s' = Some h \<and>
            history (players s' ! nat (activePlayerIndex s)) = ev # rest \<and>
            recordedRing ev h = normalizedClassify Rpx (Math_hypot x y)"
    using onBoardClick_pixelClassify [OF assms(1-5)]
    unfolding pixelClassify_normalized [OF assms(6)] .
qed

lemma sqrt_40000: "sqrt 40000 = 200"
  by (rule real_sqrt_unique) simp_all

theorem pixel_refines_normalized_witness:
  "0 \<le> activePlayerIndex onePlayer \<and>
   activePlayerIndex onePlayer < int (length (players onePlayer)) \<and>
   (0::real) < 230 \<and>
   normalizedClassify 230 (Math_hypot (- 200) 0) = Double \<and>
   (\<exists>s' h ev rest. onBoardClick exactEngine \<lparr>clientX = 30, clientY = 230\<rparr> (Some board460) onePlayer
                      = Inr s' \<and>
      lastHit s' = Some h \<and>
      history (players s' ! nat (activePlayerIndex onePlayer)) = ev # rest \<and>
      recordedRing ev h = Double)"
proof -
  have x: "(- 200::real) = clientX \<lparr>clientX = 30, clientY = 230\<rparr>
                          - (rect_left board460 + rect_width board460 / 2)"
    and y: "(0::real) = clientY \<lparr>clientX = 30, clientY = 230\<rparr>
                          - (rect_top board460 + rect_height board460 / 2)"
    and R: "(230::real) = rect_width board460 / 2"
    by (simp_all add: board460_def)
  have p: "(0::real) < 230" by simp
  have c: "normalizedClassify 230 (Math_hypot (- 200) 0) = Double"
    by (simp add: normalizedClassify_def normalized_def Math_hypot_def sqrt_40000)
  have r: "\<exists>s' h ev rest. onBoardClick exactEngine \<lparr>clientX = 30, clientY = 230\<rparr> (Some board460) onePlayer
                      = Inr s' \<and>
      lastHit s' = Some h \<and>
      history (players s' ! nat (activePlayerIndex onePlayer)) = ev # rest \<and>
      recordedRing ev h = Double"
    using pixel_refines_normalized [OF onePlayer_valid x y R p, THEN conjunct2] unfolding c .
  show ?thesis
    by (intro conjI) (rule onePlayer_valid p c r)+
qed

end
